theory Spec2Isabelle
  imports Main
begin

section \<open>Data model\<close>

text \<open>
  The syntax tree of \<^verbatim>\<open>astParser.ts\<close> (the second, hierarchical version of the module:
  \<^verbatim>\<open>parseCode\<close> that groups functions, declarations and statements).

  \<^item> \<^verbatim>\<open>NodeType\<close> and the \<^verbatim>\<open>tokenType\<close> union are enumerations.
  \<^item> \<^verbatim>\<open>ASTNode\<close> is a recursive object; the field \<^verbatim>\<open>id\<close> is the string
    \<^verbatim>\<open>node_<n>\<close> where \<^verbatim>\<open>n\<close> is the value of \<^verbatim>\<open>nodeIdCounter\<close> after the increment.
    The model keeps the number \<^verbatim>\<open>n\<close>. The field \<^verbatim>\<open>position\<close> is the constant
    \<^verbatim>\<open>{x: 0, y: 0}\<close> in every node and is left out.
  \<^item> A JavaScript string is a list of code units; the model uses \<open>string\<close>, so an input
    is a list of code units below 256.
  \<^item> The module-level variable \<^verbatim>\<open>nodeIdCounter\<close> is threaded through every function
    that creates nodes: it is the last argument and the last component of the result.
\<close>

datatype NodeType =
    NT_program | NT_function | NT_declarations | NT_statements | NT_expression
  | NT_binary_op | NT_unary_op | NT_identifier | NT_constant | NT_keyword
  | NT_operator | NT_statement | NT_declaration | NT_if_statement | NT_while_statement
  | NT_for_statement | NT_return_statement | NT_assignment | NT_call_expression
  | NT_variable_declaration | NT_function_declaration | NT_parameter_list

datatype TokenType = TT_keyword | TT_operator | TT_identifier | TT_constant

datatype ASTNode = ASTNode (node_id: nat) (node_type: NodeType) (node_value: string)
  (tokenType: TokenType) (children: "ASTNode list")

text \<open>\<^verbatim>\<open>generateNodeId\<close> and \<^verbatim>\<open>createNode\<close>: the counter is incremented, then used.\<close>

definition generateNodeId :: "nat \<Rightarrow> nat \<times> nat" where
  "generateNodeId nodeIdCounter = (Suc nodeIdCounter, Suc nodeIdCounter)"

definition createNode ::
  "NodeType \<Rightarrow> string \<Rightarrow> TokenType \<Rightarrow> ASTNode list \<Rightarrow> nat \<Rightarrow> ASTNode \<times> nat" where
  "createNode ty v tt ch nodeIdCounter =
     (case generateNodeId nodeIdCounter of (i, c) \<Rightarrow> (ASTNode i ty v tt ch, c))"

text \<open>
  \<^verbatim>\<open>node.children.push(child)\<close> on a node created earlier: the node keeps its id and
  gets one more child at the end.
\<close>

definition push_child :: "ASTNode \<Rightarrow> ASTNode \<Rightarrow> ASTNode" where
  "push_child n child =
     ASTNode (node_id n) (node_type n) (node_value n) (tokenType n) (children n @ [child])"

section \<open>JavaScript string operations\<close>

text \<open>
  White space of \<^verbatim>\<open>\s\<close> and of \<^verbatim>\<open>trim\<close> among the code units below 256: TAB, LF, VT, FF,
  CR, SPACE and NBSP. Line terminators (not matched by \<^verbatim>\<open>.\<close>): LF and CR.
\<close>

definition isWhitespace :: "char \<Rightarrow> bool" where
  "isWhitespace ch = (of_char ch \<in> {9, 10, 11, 12, 13, 32, 160 :: nat})"

definition isLineTerminator :: "char \<Rightarrow> bool" where
  "isLineTerminator ch = (of_char ch \<in> {10, 13 :: nat})"

definition isDigit :: "char \<Rightarrow> bool" where
  "isDigit ch = (48 \<le> (of_char ch :: nat) \<and> (of_char ch :: nat) \<le> 57)"

definition isLetter :: "char \<Rightarrow> bool" where
  "isLetter ch = ((65 \<le> (of_char ch :: nat) \<and> (of_char ch :: nat) \<le> 90)
                \<or> (97 \<le> (of_char ch :: nat) \<and> (of_char ch :: nat) \<le> 122))"

definition trim :: "string \<Rightarrow> string" where
  "trim s = rev (dropWhile isWhitespace (rev (dropWhile isWhitespace s)))"

definition startsWith :: "string \<Rightarrow> string \<Rightarrow> bool" where
  "startsWith s p = (take (length p) s = p)"

definition endsWith :: "string \<Rightarrow> string \<Rightarrow> bool" where
  "endsWith s p = (length p \<le> length s \<and> drop (length s - length p) s = p)"

fun str_includes :: "string \<Rightarrow> string \<Rightarrow> bool" where
  "str_includes [] p = (p = [])"
| "str_includes (ch # s) p = (startsWith (ch # s) p \<or> str_includes s p)"

text \<open>\<^verbatim>\<open>s.replace(p, r)\<close> with a string pattern: the first occurrence only.\<close>

fun replace :: "string \<Rightarrow> string \<Rightarrow> string \<Rightarrow> string" where
  "replace [] p r = (if p = [] then r else [])"
| "replace (ch # s) p r =
     (if startsWith (ch # s) p then r @ drop (length p) (ch # s) else ch # replace s p r)"

text \<open>\<^verbatim>\<open>s.split(sep)\<close> for a separator of one character: never the empty array.\<close>

fun split :: "string \<Rightarrow> char \<Rightarrow> string list" where
  "split [] sep = [[]]"
| "split (ch # s) sep =
     (if ch = sep then [] # split s sep
      else (case split s sep of p # ps \<Rightarrow> (ch # p) # ps | [] \<Rightarrow> [[ch]]))"

text \<open>\<^verbatim>\<open>s.split(/\s+/)\<close>: the separators are the maximal runs of white space.\<close>

function split_ws :: "string \<Rightarrow> string list" where
  "split_ws [] = [[]]"
| "split_ws (ch # s) =
     (if isWhitespace ch then [] # split_ws (dropWhile isWhitespace s)
      else (case split_ws s of p # ps \<Rightarrow> (ch # p) # ps | [] \<Rightarrow> [[ch]]))"
  by pat_completeness auto
termination
  by (relation "measure length") (auto simp: length_dropWhile_le less_Suc_eq_le)

text \<open>
  \<^verbatim>\<open>toLowerCase\<close> and \<^verbatim>\<open>toUpperCase\<close> on code units below 256. Lower case maps
  \<^verbatim>\<open>A-Z\<close> and \<^verbatim>\<open>U+00C0-U+00DE\<close> (without \<^verbatim>\<open>U+00D7\<close>) up by 32. Upper case maps
  \<^verbatim>\<open>a-z\<close> and \<^verbatim>\<open>U+00E0-U+00FE\<close> (without \<^verbatim>\<open>U+00F7\<close>) down by 32 and \<^verbatim>\<open>U+00DF\<close> to
  \<^verbatim>\<open>SS\<close>; the upper-case forms of \<^verbatim>\<open>U+00B5\<close> and \<^verbatim>\<open>U+00FF\<close> lie above 255 and these
  two code units are left as they are.
\<close>

definition toLowerCase_char :: "char \<Rightarrow> char" where
  "toLowerCase_char ch =
     (let n = (of_char ch :: nat) in
      if (65 \<le> n \<and> n \<le> 90) \<or> (192 \<le> n \<and> n \<le> 222 \<and> n \<noteq> 215) then char_of (n + 32) else ch)"

definition toLowerCase :: "string \<Rightarrow> string" where
  "toLowerCase s = map toLowerCase_char s"

definition toUpperCase_char :: "char \<Rightarrow> string" where
  "toUpperCase_char ch =
     (let n = (of_char ch :: nat) in
      if (97 \<le> n \<and> n \<le> 122) \<or> (224 \<le> n \<and> n \<le> 254 \<and> n \<noteq> 247) then [char_of (n - 32)]
      else if n = 223 then ''SS'' else [ch])"

definition toUpperCase :: "string \<Rightarrow> string" where
  "toUpperCase s = concat (map toUpperCase_char s)"

text \<open>The three regular expressions of the token tests.\<close>

definition isNumber :: "string \<Rightarrow> bool" where
  \<comment> \<open>\<^verbatim>\<open>/^\d+(\.\d+)?$/\<close>\<close>
  "isNumber s =
     (takeWhile isDigit s \<noteq> [] \<and>
      (case dropWhile isDigit s of
         [] \<Rightarrow> True
       | ch # r \<Rightarrow> ch = CHR ''.'' \<and> r \<noteq> [] \<and> list_all isDigit r))"

definition isQuote :: "char \<Rightarrow> bool" where
  "isQuote ch = (of_char ch \<in> {34, 39 :: nat})"

definition isStringLiteral :: "string \<Rightarrow> bool" where
  \<comment> \<open>\<^verbatim>\<open>/^["'].*["']$/\<close>\<close>
  "isStringLiteral s =
     (2 \<le> length s \<and> isQuote (hd s) \<and> isQuote (last s)
      \<and> list_all (\<lambda>ch. \<not> isLineTerminator ch) (butlast (tl s)))"

definition isIdentifier :: "string \<Rightarrow> bool" where
  \<comment> \<open>\<^verbatim>\<open>/^[a-zA-Z_][a-zA-Z0-9_]*$/\<close>\<close>
  "isIdentifier s =
     (case s of
        [] \<Rightarrow> False
      | ch # r \<Rightarrow> (isLetter ch \<or> ch = CHR ''_'')
                 \<and> list_all (\<lambda>x. isLetter x \<or> isDigit x \<or> x = CHR ''_'') r)"

text \<open>
  \<^verbatim>\<open>statement.match(/kw\s*\((.*?)\)/)?.[1]\<close> for a keyword \<^verbatim>\<open>kw\<close>: the leftmost
  position where \<^verbatim>\<open>kw\<close>, white space and \<^verbatim>\<open>(\<close> are followed by a \<^verbatim>\<open>)\<close> with no line
  terminator in between; the capture is the text up to the first such \<^verbatim>\<open>)\<close>.
\<close>

definition match_capture :: "string \<Rightarrow> string option" where
  "match_capture s =
     (let cap = takeWhile (\<lambda>ch. ch \<noteq> CHR '')'' \<and> \<not> isLineTerminator ch) s in
      (case drop (length cap) s of
         ch # _ \<Rightarrow> if ch = CHR '')'' then Some cap else None
       | [] \<Rightarrow> None))"

definition match_here :: "string \<Rightarrow> string \<Rightarrow> string option" where
  "match_here kw s =
     (if startsWith s kw then
        (case dropWhile isWhitespace (drop (length kw) s) of
           ch # r \<Rightarrow> if ch = CHR ''('' then match_capture r else None
         | [] \<Rightarrow> None)
      else None)"

fun match_paren :: "string \<Rightarrow> string \<Rightarrow> string option" where
  "match_paren kw [] = match_here kw []"
| "match_paren kw (ch # s) =
     (case match_here kw (ch # s) of Some cap \<Rightarrow> Some cap | None \<Rightarrow> match_paren kw s)"

section \<open>Tokenizer\<close>

text \<open>
  \<^verbatim>\<open>tokenizeExpression\<close>: the loop over the characters carries \<^verbatim>\<open>tokens\<close> and
  \<^verbatim>\<open>current\<close>. The split characters are \<^verbatim>\<open>+ - * / ( ) ^\<close> only.
\<close>

definition isSplitChar :: "char \<Rightarrow> bool" where
  "isSplitChar ch = (ch \<in> set ''+-*/()^'')"

fun tokenizeExpression_loop :: "string \<Rightarrow> string list \<Rightarrow> string \<Rightarrow> string list \<times> string" where
  "tokenizeExpression_loop [] tokens current = (tokens, current)"
| "tokenizeExpression_loop (ch # input) tokens current =
     (if isWhitespace ch then
        (if current \<noteq> [] then tokenizeExpression_loop input (tokens @ [current]) []
         else tokenizeExpression_loop input tokens current)
      else if isSplitChar ch then
        (if current \<noteq> [] then tokenizeExpression_loop input (tokens @ [current] @ [[ch]]) []
         else tokenizeExpression_loop input (tokens @ [[ch]]) current)
      else tokenizeExpression_loop input tokens (current @ [ch]))"

definition tokenizeExpression :: "string \<Rightarrow> string list" where
  "tokenizeExpression input =
     (case tokenizeExpression_loop input [] [] of
        (tokens, current) \<Rightarrow>
          filter (\<lambda>token. length token > 0)
            (if current \<noteq> [] then tokens @ [current] else tokens))"

text \<open>
  \<^verbatim>\<open>peek\<close> and \<^verbatim>\<open>consume\<close> of both parsers; \<^verbatim>\<open>consume\<close> gives the new index (the
  token it returns is the one \<^verbatim>\<open>peek\<close> gives before). \<^verbatim>\<open>truthy\<close> is the test
  \<^verbatim>\<open>if (token)\<close> on a value of type \<^verbatim>\<open>string | null\<close>.
\<close>

definition peek :: "string list \<Rightarrow> nat \<Rightarrow> string option" where
  "peek tokens index = (if index < length tokens then Some (tokens ! index) else None)"

definition consume :: "string list \<Rightarrow> nat \<Rightarrow> nat" where
  "consume tokens index = (if index < length tokens then Suc index else index)"

definition truthy :: "string option \<Rightarrow> bool" where
  "truthy t = (case t of None \<Rightarrow> False | Some s \<Rightarrow> s \<noteq> [])"

section \<open>The expression parser of the statement level\<close>

text \<open>
  \<^verbatim>\<open>parseExpressionRecursive\<close>: eight nested functions over the shared variables
  \<^verbatim>\<open>tokens\<close> (never written) and \<^verbatim>\<open>index\<close>. Each function of the model takes the index
  and the node counter and returns the node, the new index and the new counter. Every
  \<^verbatim>\<open>while\<close> loop is the function with the suffix \<open>_while\<close>; its argument \<open>left\<close> (or
  \<open>callNode\<close>) is the loop variable. The operator node is created after the right
  operand is parsed, the call node before its arguments, as in the source.
\<close>

function
  parseLogicalOr :: "string list \<Rightarrow> nat \<Rightarrow> nat \<Rightarrow> ASTNode \<times> nat \<times> nat" and
  parseLogicalOr_while :: "string list \<Rightarrow> ASTNode \<Rightarrow> nat \<Rightarrow> nat \<Rightarrow> ASTNode \<times> nat \<times> nat" and
  parseLogicalAnd :: "string list \<Rightarrow> nat \<Rightarrow> nat \<Rightarrow> ASTNode \<times> nat \<times> nat" and
  parseLogicalAnd_while :: "string list \<Rightarrow> ASTNode \<Rightarrow> nat \<Rightarrow> nat \<Rightarrow> ASTNode \<times> nat \<times> nat" and
  parseEquality :: "string list \<Rightarrow> nat \<Rightarrow> nat \<Rightarrow> ASTNode \<times> nat \<times> nat" and
  parseEquality_while :: "string list \<Rightarrow> ASTNode \<Rightarrow> nat \<Rightarrow> nat \<Rightarrow> ASTNode \<times> nat \<times> nat" and
  parseComparison :: "string list \<Rightarrow> nat \<Rightarrow> nat \<Rightarrow> ASTNode \<times> nat \<times> nat" and
  parseComparison_while :: "string list \<Rightarrow> ASTNode \<Rightarrow> nat \<Rightarrow> nat \<Rightarrow> ASTNode \<times> nat \<times> nat" and
  parseAddSub :: "string list \<Rightarrow> nat \<Rightarrow> nat \<Rightarrow> ASTNode \<times> nat \<times> nat" and
  parseAddSub_while :: "string list \<Rightarrow> ASTNode \<Rightarrow> nat \<Rightarrow> nat \<Rightarrow> ASTNode \<times> nat \<times> nat" and
  parseMulDiv :: "string list \<Rightarrow> nat \<Rightarrow> nat \<Rightarrow> ASTNode \<times> nat \<times> nat" and
  parseMulDiv_while :: "string list \<Rightarrow> ASTNode \<Rightarrow> nat \<Rightarrow> nat \<Rightarrow> ASTNode \<times> nat \<times> nat" and
  parseUnary :: "string list \<Rightarrow> nat \<Rightarrow> nat \<Rightarrow> ASTNode \<times> nat \<times> nat" and
  parsePrimary :: "string list \<Rightarrow> nat \<Rightarrow> nat \<Rightarrow> ASTNode \<times> nat \<times> nat" and
  parsePrimary_while :: "string list \<Rightarrow> ASTNode \<Rightarrow> nat \<Rightarrow> nat \<Rightarrow> ASTNode \<times> nat \<times> nat"
where
  "parseLogicalOr tokens index c =
     (case parseLogicalAnd tokens index c of (left, index1, c1) \<Rightarrow>
        parseLogicalOr_while tokens left index1 c1)"
| "parseLogicalOr_while tokens left index c =
     (if peek tokens index = Some ''||'' then
        (case parseLogicalAnd tokens (consume tokens index) c of (right, index1, c1) \<Rightarrow>
           (case createNode NT_binary_op (tokens ! index) TT_operator [] c1 of (opNode, c2) \<Rightarrow>
              parseLogicalOr_while tokens (push_child (push_child opNode left) right) index1 c2))
      else (left, index, c))"
| "parseLogicalAnd tokens index c =
     (case parseEquality tokens index c of (left, index1, c1) \<Rightarrow>
        parseLogicalAnd_while tokens left index1 c1)"
| "parseLogicalAnd_while tokens left index c =
     (if peek tokens index = Some ''&&'' then
        (case parseEquality tokens (consume tokens index) c of (right, index1, c1) \<Rightarrow>
           (case createNode NT_binary_op (tokens ! index) TT_operator [] c1 of (opNode, c2) \<Rightarrow>
              parseLogicalAnd_while tokens (push_child (push_child opNode left) right) index1 c2))
      else (left, index, c))"
| "parseEquality tokens index c =
     (case parseComparison tokens index c of (left, index1, c1) \<Rightarrow>
        parseEquality_while tokens left index1 c1)"
| "parseEquality_while tokens left index c =
     (if peek tokens index = Some ''=='' \<or> peek tokens index = Some ''!='' then
        (case parseComparison tokens (consume tokens index) c of (right, index1, c1) \<Rightarrow>
           (case createNode NT_binary_op (tokens ! index) TT_operator [] c1 of (opNode, c2) \<Rightarrow>
              parseEquality_while tokens (push_child (push_child opNode left) right) index1 c2))
      else (left, index, c))"
| "parseComparison tokens index c =
     (case parseAddSub tokens index c of (left, index1, c1) \<Rightarrow>
        parseComparison_while tokens left index1 c1)"
| "parseComparison_while tokens left index c =
     (if peek tokens index = Some ''<'' \<or> peek tokens index = Some ''>'' \<or> peek tokens index = Some ''<='' \<or> peek tokens index = Some ''>='' then
        (case parseAddSub tokens (consume tokens index) c of (right, index1, c1) \<Rightarrow>
           (case createNode NT_binary_op (tokens ! index) TT_operator [] c1 of (opNode, c2) \<Rightarrow>
              parseComparison_while tokens (push_child (push_child opNode left) right) index1 c2))
      else (left, index, c))"
| "parseAddSub tokens index c =
     (case parseMulDiv tokens index c of (left, index1, c1) \<Rightarrow>
        parseAddSub_while tokens left index1 c1)"
| "parseAddSub_while tokens left index c =
     (if peek tokens index = Some ''+'' \<or> peek tokens index = Some ''-'' then
        (case parseMulDiv tokens (consume tokens index) c of (right, index1, c1) \<Rightarrow>
           (case createNode NT_binary_op (tokens ! index) TT_operator [] c1 of (opNode, c2) \<Rightarrow>
              parseAddSub_while tokens (push_child (push_child opNode left) right) index1 c2))
      else (left, index, c))"
| "parseMulDiv tokens index c =
     (case parseUnary tokens index c of (left, index1, c1) \<Rightarrow>
        parseMulDiv_while tokens left index1 c1)"
| "parseMulDiv_while tokens left index c =
     (if peek tokens index = Some ''*'' \<or> peek tokens index = Some ''/'' \<or> peek tokens index = Some ''%'' then
        (case parseUnary tokens (consume tokens index) c of (right, index1, c1) \<Rightarrow>
           (case createNode NT_binary_op (tokens ! index) TT_operator [] c1 of (opNode, c2) \<Rightarrow>
              parseMulDiv_while tokens (push_child (push_child opNode left) right) index1 c2))
      else (left, index, c))"
| "parseUnary tokens index c =
     (if peek tokens index = Some ''-'' \<or> peek tokens index = Some ''!'' \<or> peek tokens index = Some ''++'' \<or> peek tokens index = Some ''--'' then
        (case parseUnary tokens (consume tokens index) c of (operand, index1, c1) \<Rightarrow>
           (case createNode NT_unary_op (tokens ! index) TT_operator [] c1 of (unaryNode, c2) \<Rightarrow>
              (push_child unaryNode operand, index1, c2)))
      else parsePrimary tokens index c)"
| "parsePrimary tokens index c =
     (if \<not> truthy (peek tokens index) then
        (case createNode NT_identifier [] TT_identifier [] c of (n, c1) \<Rightarrow> (n, index, c1))
      else if tokens ! index = ''('' then
        (case parseLogicalOr tokens (consume tokens index) c of (expr, index1, c1) \<Rightarrow>
           (expr, consume tokens index1, c1))
      else if isNumber (tokens ! index) then
        (case createNode NT_constant (tokens ! index) TT_constant [] c of (n, c1) \<Rightarrow>
           (n, consume tokens index, c1))
      else if isStringLiteral (tokens ! index) then
        (case createNode NT_constant (tokens ! index) TT_constant [] c of (n, c1) \<Rightarrow>
           (n, consume tokens index, c1))
      else if isIdentifier (tokens ! index) then
        (if peek tokens (consume tokens index) = Some ''('' then
           (case createNode NT_call_expression (tokens ! index) TT_identifier [] c of
              (callNode, c1) \<Rightarrow>
                (case parsePrimary_while tokens callNode (consume tokens (consume tokens index)) c1 of
                   (callNode1, index1, c2) \<Rightarrow> (callNode1, consume tokens index1, c2)))
         else
           (case createNode NT_identifier (tokens ! index) TT_identifier [] c of (n, c1) \<Rightarrow>
              (n, consume tokens index, c1)))
      else
        (case createNode NT_identifier (tokens ! index) TT_identifier [] c of (n, c1) \<Rightarrow>
           (n, consume tokens index, c1)))"
| "parsePrimary_while tokens callNode index c =
     (if truthy (peek tokens index) \<and> peek tokens index \<noteq> Some '')'' then
        (case parseLogicalOr tokens index c of (arg, index1, c1) \<Rightarrow>
           parsePrimary_while tokens (push_child callNode arg)
             (if peek tokens index1 = Some '','' then consume tokens index1 else index1) c1)
      else (callNode, index, c))"
  by pat_completeness auto

text \<open>
  Termination. The loops continue from the index a callee returns, so the proof needs
  that no function moves the index backwards and that a function called on a non-empty
  token consumes at least that token. Both are proved on the domain of the functions
  first.
\<close>

abbreviation (input) parser_dom where
  "parser_dom \<equiv> parseLogicalOr_parseLogicalOr_while_parseLogicalAnd_parseLogicalAnd_while_parseEquality_parseEquality_while_parseComparison_parseComparison_while_parseAddSub_parseAddSub_while_parseMulDiv_parseMulDiv_while_parseUnary_parsePrimary_parsePrimary_while_dom"

lemma parser_progress_dom:
  "parser_dom (Inl (Inl (Inl (tokens, index, c)))) \<Longrightarrow>
     index \<le> fst (snd (parseLogicalOr tokens index c)) \<and> (truthy (peek tokens index) \<longrightarrow> index < fst (snd (parseLogicalOr tokens index c)))"
  "parser_dom (Inl (Inl (Inr (Inl (tokens, left, index, c))))) \<Longrightarrow> index \<le> fst (snd (parseLogicalOr_while tokens left index c))"
  "parser_dom (Inl (Inl (Inr (Inr (tokens, index, c))))) \<Longrightarrow>
     index \<le> fst (snd (parseLogicalAnd tokens index c)) \<and> (truthy (peek tokens index) \<longrightarrow> index < fst (snd (parseLogicalAnd tokens index c)))"
  "parser_dom (Inl (Inr (Inl (Inl (tokens, left, index, c))))) \<Longrightarrow> index \<le> fst (snd (parseLogicalAnd_while tokens left index c))"
  "parser_dom (Inl (Inr (Inl (Inr (tokens, index, c))))) \<Longrightarrow>
     index \<le> fst (snd (parseEquality tokens index c)) \<and> (truthy (peek tokens index) \<longrightarrow> index < fst (snd (parseEquality tokens index c)))"
  "parser_dom (Inl (Inr (Inr (Inl (tokens, left, index, c))))) \<Longrightarrow> index \<le> fst (snd (parseEquality_while tokens left index c))"
  "parser_dom (Inl (Inr (Inr (Inr (tokens, index, c))))) \<Longrightarrow>
     index \<le> fst (snd (parseComparison tokens index c)) \<and> (truthy (peek tokens index) \<longrightarrow> index < fst (snd (parseComparison tokens index c)))"
  "parser_dom (Inr (Inl (Inl (Inl (tokens, left, index, c))))) \<Longrightarrow> index \<le> fst (snd (parseComparison_while tokens left index c))"
  "parser_dom (Inr (Inl (Inl (Inr (tokens, index, c))))) \<Longrightarrow>
     index \<le> fst (snd (parseAddSub tokens index c)) \<and> (truthy (peek tokens index) \<longrightarrow> index < fst (snd (parseAddSub tokens index c)))"
  "parser_dom (Inr (Inl (Inr (Inl (tokens, left, index, c))))) \<Longrightarrow> index \<le> fst (snd (parseAddSub_while tokens left index c))"
  "parser_dom (Inr (Inl (Inr (Inr (tokens, index, c))))) \<Longrightarrow>
     index \<le> fst (snd (parseMulDiv tokens index c)) \<and> (truthy (peek tokens index) \<longrightarrow> index < fst (snd (parseMulDiv tokens index c)))"
  "parser_dom (Inr (Inr (Inl (Inl (tokens, left, index, c))))) \<Longrightarrow> index \<le> fst (snd (parseMulDiv_while tokens left index c))"
  "parser_dom (Inr (Inr (Inl (Inr (tokens, index, c))))) \<Longrightarrow>
     index \<le> fst (snd (parseUnary tokens index c)) \<and> (truthy (peek tokens index) \<longrightarrow> index < fst (snd (parseUnary tokens index c)))"
  "parser_dom (Inr (Inr (Inr (Inl (tokens, index, c))))) \<Longrightarrow>
     index \<le> fst (snd (parsePrimary tokens index c)) \<and> (truthy (peek tokens index) \<longrightarrow> index < fst (snd (parsePrimary tokens index c)))"
  "parser_dom (Inr (Inr (Inr (Inr (tokens, callNode, index, c))))) \<Longrightarrow> index \<le> fst (snd (parsePrimary_while tokens callNode index c))"
proof (induct rule: parseLogicalOr_parseLogicalOr_while_parseLogicalAnd_parseLogicalAnd_while_parseEquality_parseEquality_while_parseComparison_parseComparison_while_parseAddSub_parseAddSub_while_parseMulDiv_parseMulDiv_while_parseUnary_parsePrimary_parsePrimary_while.pinduct)
  case (1 tokens index c)
  obtain left i1 c1 where r: "parseLogicalAnd tokens index c = (left, i1, c1)"
    by (metis prod_cases3)
  from 1(3)[of left "(i1, c1)" i1 c1] r
  have "i1 \<le> fst (snd (parseLogicalOr_while tokens left i1 c1))" by simp
  with 1(1,2) r show ?case by (auto simp add: parseLogicalOr.psimps)
next
  case (2 tokens left index c)
  show ?case
  proof (cases "peek tokens index = Some ''||''")
    case True
    obtain right i1 c1 where r: "parseLogicalAnd tokens (consume tokens index) c = (right, i1, c1)"
      by (metis prod_cases3)
    obtain opNode c2 where n: "createNode NT_binary_op (tokens ! index) TT_operator [] c1 = (opNode, c2)"
      by (metis surj_pair)
    from 2(2)[OF True] r have a: "consume tokens index \<le> i1" by simp
    from 2(3)[OF True, of right "(i1, c1)" i1 c1 opNode c2] r n
    have b: "i1 \<le> fst (snd (parseLogicalOr_while tokens (push_child (push_child opNode left) right) i1 c2))"
      by simp
    have "index \<le> consume tokens index" by (simp add: consume_def)
    with a b 2(1) True r n show ?thesis by (simp add: parseLogicalOr_while.psimps)
  next
    case False
    with 2(1) show ?thesis by (simp add: parseLogicalOr_while.psimps)
  qed
next
  case (3 tokens index c)
  obtain left i1 c1 where r: "parseEquality tokens index c = (left, i1, c1)"
    by (metis prod_cases3)
  from 3(3)[of left "(i1, c1)" i1 c1] r
  have "i1 \<le> fst (snd (parseLogicalAnd_while tokens left i1 c1))" by simp
  with 3(1,2) r show ?case by (auto simp add: parseLogicalAnd.psimps)
next
  case (4 tokens left index c)
  show ?case
  proof (cases "peek tokens index = Some ''&&''")
    case True
    obtain right i1 c1 where r: "parseEquality tokens (consume tokens index) c = (right, i1, c1)"
      by (metis prod_cases3)
    obtain opNode c2 where n: "createNode NT_binary_op (tokens ! index) TT_operator [] c1 = (opNode, c2)"
      by (metis surj_pair)
    from 4(2)[OF True] r have a: "consume tokens index \<le> i1" by simp
    from 4(3)[OF True, of right "(i1, c1)" i1 c1 opNode c2] r n
    have b: "i1 \<le> fst (snd (parseLogicalAnd_while tokens (push_child (push_child opNode left) right) i1 c2))"
      by simp
    have "index \<le> consume tokens index" by (simp add: consume_def)
    with a b 4(1) True r n show ?thesis by (simp add: parseLogicalAnd_while.psimps)
  next
    case False
    with 4(1) show ?thesis by (simp add: parseLogicalAnd_while.psimps)
  qed
next
  case (5 tokens index c)
  obtain left i1 c1 where r: "parseComparison tokens index c = (left, i1, c1)"
    by (metis prod_cases3)
  from 5(3)[of left "(i1, c1)" i1 c1] r
  have "i1 \<le> fst (snd (parseEquality_while tokens left i1 c1))" by simp
  with 5(1,2) r show ?case by (auto simp add: parseEquality.psimps)
next
  case (6 tokens left index c)
  show ?case
  proof (cases "peek tokens index = Some ''=='' \<or> peek tokens index = Some ''!=''")
    case True
    obtain right i1 c1 where r: "parseComparison tokens (consume tokens index) c = (right, i1, c1)"
      by (metis prod_cases3)
    obtain opNode c2 where n: "createNode NT_binary_op (tokens ! index) TT_operator [] c1 = (opNode, c2)"
      by (metis surj_pair)
    from 6(2)[OF True] r have a: "consume tokens index \<le> i1" by simp
    from 6(3)[OF True, of right "(i1, c1)" i1 c1 opNode c2] r n
    have b: "i1 \<le> fst (snd (parseEquality_while tokens (push_child (push_child opNode left) right) i1 c2))"
      by simp
    have "index \<le> consume tokens index" by (simp add: consume_def)
    with a b 6(1) True r n show ?thesis by (simp add: parseEquality_while.psimps)
  next
    case False
    with 6(1) show ?thesis by (simp add: parseEquality_while.psimps)
  qed
next
  case (7 tokens index c)
  obtain left i1 c1 where r: "parseAddSub tokens index c = (left, i1, c1)"
    by (metis prod_cases3)
  from 7(3)[of left "(i1, c1)" i1 c1] r
  have "i1 \<le> fst (snd (parseComparison_while tokens left i1 c1))" by simp
  with 7(1,2) r show ?case by (auto simp add: parseComparison.psimps)
next
  case (8 tokens left index c)
  show ?case
  proof (cases "peek tokens index = Some ''<'' \<or> peek tokens index = Some ''>'' \<or> peek tokens index = Some ''<='' \<or> peek tokens index = Some ''>=''")
    case True
    obtain right i1 c1 where r: "parseAddSub tokens (consume tokens index) c = (right, i1, c1)"
      by (metis prod_cases3)
    obtain opNode c2 where n: "createNode NT_binary_op (tokens ! index) TT_operator [] c1 = (opNode, c2)"
      by (metis surj_pair)
    from 8(2)[OF True] r have a: "consume tokens index \<le> i1" by simp
    from 8(3)[OF True, of right "(i1, c1)" i1 c1 opNode c2] r n
    have b: "i1 \<le> fst (snd (parseComparison_while tokens (push_child (push_child opNode left) right) i1 c2))"
      by simp
    have "index \<le> consume tokens index" by (simp add: consume_def)
    with a b 8(1) True r n show ?thesis by (simp add: parseComparison_while.psimps)
  next
    case False
    with 8(1) show ?thesis by (simp add: parseComparison_while.psimps)
  qed
next
  case (9 tokens index c)
  obtain left i1 c1 where r: "parseMulDiv tokens index c = (left, i1, c1)"
    by (metis prod_cases3)
  from 9(3)[of left "(i1, c1)" i1 c1] r
  have "i1 \<le> fst (snd (parseAddSub_while tokens left i1 c1))" by simp
  with 9(1,2) r show ?case by (auto simp add: parseAddSub.psimps)
next
  case (10 tokens left index c)
  show ?case
  proof (cases "peek tokens index = Some ''+'' \<or> peek tokens index = Some ''-''")
    case True
    obtain right i1 c1 where r: "parseMulDiv tokens (consume tokens index) c = (right, i1, c1)"
      by (metis prod_cases3)
    obtain opNode c2 where n: "createNode NT_binary_op (tokens ! index) TT_operator [] c1 = (opNode, c2)"
      by (metis surj_pair)
    from 10(2)[OF True] r have a: "consume tokens index \<le> i1" by simp
    from 10(3)[OF True, of right "(i1, c1)" i1 c1 opNode c2] r n
    have b: "i1 \<le> fst (snd (parseAddSub_while tokens (push_child (push_child opNode left) right) i1 c2))"
      by simp
    have "index \<le> consume tokens index" by (simp add: consume_def)
    with a b 10(1) True r n show ?thesis by (simp add: parseAddSub_while.psimps)
  next
    case False
    with 10(1) show ?thesis by (simp add: parseAddSub_while.psimps)
  qed
next
  case (11 tokens index c)
  obtain left i1 c1 where r: "parseUnary tokens index c = (left, i1, c1)"
    by (metis prod_cases3)
  from 11(3)[of left "(i1, c1)" i1 c1] r
  have "i1 \<le> fst (snd (parseMulDiv_while tokens left i1 c1))" by simp
  with 11(1,2) r show ?case by (auto simp add: parseMulDiv.psimps)
next
  case (12 tokens left index c)
  show ?case
  proof (cases "peek tokens index = Some ''*'' \<or> peek tokens index = Some ''/'' \<or> peek tokens index = Some ''%''")
    case True
    obtain right i1 c1 where r: "parseUnary tokens (consume tokens index) c = (right, i1, c1)"
      by (metis prod_cases3)
    obtain opNode c2 where n: "createNode NT_binary_op (tokens ! index) TT_operator [] c1 = (opNode, c2)"
      by (metis surj_pair)
    from 12(2)[OF True] r have a: "consume tokens index \<le> i1" by simp
    from 12(3)[OF True, of right "(i1, c1)" i1 c1 opNode c2] r n
    have b: "i1 \<le> fst (snd (parseMulDiv_while tokens (push_child (push_child opNode left) right) i1 c2))"
      by simp
    have "index \<le> consume tokens index" by (simp add: consume_def)
    with a b 12(1) True r n show ?thesis by (simp add: parseMulDiv_while.psimps)
  next
    case False
    with 12(1) show ?thesis by (simp add: parseMulDiv_while.psimps)
  qed
next
  case (13 tokens index c)
  show ?case
  proof (cases "peek tokens index = Some ''-'' \<or> peek tokens index = Some ''!'' \<or> peek tokens index = Some ''++'' \<or> peek tokens index = Some ''--''")
    case True
    then have t: "index < length tokens" by (auto simp: peek_def split: if_splits)
    obtain operand i1 c1 where r: "parseUnary tokens (consume tokens index) c = (operand, i1, c1)"
      by (metis prod_cases3)
    from 13(2)[OF True] r have a: "consume tokens index \<le> i1" by simp
    from t have "index < consume tokens index" by (simp add: consume_def)
    with a 13(1) True r show ?thesis by (simp add: parseUnary.psimps split: prod.splits)
  next
    case False
    with 13(1) 13(3)[OF False] show ?thesis by (simp add: parseUnary.psimps)
  qed
next
  case (14 tokens index c)
  show ?case
  proof (cases "truthy (peek tokens index)")
    case False
    with 14(1) show ?thesis by (simp add: parsePrimary.psimps split: prod.splits)
  next
    case True
    then have t: "index < length tokens" by (auto simp: peek_def truthy_def split: if_splits)
    then have s: "index < consume tokens index" by (simp add: consume_def)
    have m: "\<And>i. i \<le> consume tokens i" by (simp add: consume_def)
    show ?thesis
    proof (cases "tokens ! index = ''(''")
      case paren: True
      obtain expr i1 c1 where r: "parseLogicalOr tokens (consume tokens index) c = (expr, i1, c1)"
        by (metis prod_cases3)
      from 14(2) True paren r have "consume tokens index \<le> i1" by simp
      with s m[of i1] have "index < consume tokens i1" by linarith
      with 14(1) True paren r show ?thesis by (simp add: parsePrimary.psimps)
    next
      case noparen: False
      show ?thesis
      proof (cases "\<not> isNumber (tokens ! index) \<and> \<not> isStringLiteral (tokens ! index)
                      \<and> isIdentifier (tokens ! index) \<and> peek tokens (consume tokens index) = Some ''(''")
        case call: True
        obtain callNode c1 where n: "createNode NT_call_expression (tokens ! index) TT_identifier [] c = (callNode, c1)"
          by (metis surj_pair)
        obtain callNode1 i1 c2 where r:
          "parsePrimary_while tokens callNode (consume tokens (consume tokens index)) c1 = (callNode1, i1, c2)"
          by (metis prod_cases3)
        from 14(3)[of callNode c1] True noparen call n r
        have "consume tokens (consume tokens index) \<le> i1" by simp
        with s m[of i1] m[of "consume tokens index"] have "index < consume tokens i1" by linarith
        with 14(1) True noparen call n r show ?thesis by (simp add: parsePrimary.psimps)
      next
        case False
        with 14(1) True noparen s show ?thesis
          by (auto simp: parsePrimary.psimps split: prod.splits)
      qed
    qed
  qed
next
  case (15 tokens callNode index c)
  show ?case
  proof (cases "truthy (peek tokens index) \<and> peek tokens index \<noteq> Some '')''")
    case True
    obtain arg i1 c1 where r: "parseLogicalOr tokens index c = (arg, i1, c1)"
      by (metis prod_cases3)
    from 15(2)[OF True] r have a: "index \<le> i1" by simp
    have m: "i1 \<le> (if peek tokens i1 = Some '','' then consume tokens i1 else i1)"
      by (simp add: consume_def)
    from 15(3)[OF True, of arg "(i1, c1)" i1 c1] r
    have "(if peek tokens i1 = Some '','' then consume tokens i1 else i1)
          \<le> fst (snd (parsePrimary_while tokens (push_child callNode arg)
                (if peek tokens i1 = Some '','' then consume tokens i1 else i1) c1))"
      by simp
    with a m have "index \<le> fst (snd (parsePrimary_while tokens (push_child callNode arg)
                (if peek tokens i1 = Some '','' then consume tokens i1 else i1) c1))"
      by linarith
    with 15(1) True r show ?thesis by (simp add: parsePrimary_while.psimps)
  next
    case False
    with 15(1) show ?thesis by (auto simp add: parsePrimary_while.psimps)
  qed
qed

definition parser_measure where
  "parser_measure =
     (case_sum (case_sum (case_sum (\<lambda>(tokens, index, c). (length tokens - index, 13 :: nat))
       (case_sum (\<lambda>(tokens, left, index, c). (length tokens - index, 12 :: nat))
       (\<lambda>(tokens, index, c). (length tokens - index, 11 :: nat))))
       (case_sum (case_sum (\<lambda>(tokens, left, index, c). (length tokens - index, 10 :: nat))
       (\<lambda>(tokens, index, c). (length tokens - index, 9 :: nat)))
       (case_sum (\<lambda>(tokens, left, index, c). (length tokens - index, 8 :: nat))
       (\<lambda>(tokens, index, c). (length tokens - index, 7 :: nat)))))
       (case_sum (case_sum (case_sum (\<lambda>(tokens, left, index, c). (length tokens - index, 6 :: nat))
       (\<lambda>(tokens, index, c). (length tokens - index, 5 :: nat)))
       (case_sum (\<lambda>(tokens, left, index, c). (length tokens - index, 4 :: nat))
       (\<lambda>(tokens, index, c). (length tokens - index, 3 :: nat))))
       (case_sum (case_sum (\<lambda>(tokens, left, index, c). (length tokens - index, 2 :: nat))
       (\<lambda>(tokens, index, c). (length tokens - index, 1 :: nat)))
       (case_sum (\<lambda>(tokens, index, c). (length tokens - index, 0 :: nat))
       (\<lambda>(tokens, left, index, c). (length tokens - index, 14 :: nat))))))"

lemma parser_progress_eq:
  "parser_dom (Inl (Inl (Inl (tokens, index, c)))) \<Longrightarrow> (x, xa, ya) = parseLogicalOr tokens index c \<Longrightarrow>
     parseLogicalOr tokens index c = (x, xa, ya) \<and> index \<le> xa \<and> (truthy (peek tokens index) \<longrightarrow> index < xa)"
  "parser_dom (Inl (Inl (Inr (Inr (tokens, index, c))))) \<Longrightarrow> (x, xa, ya) = parseLogicalAnd tokens index c \<Longrightarrow>
     parseLogicalAnd tokens index c = (x, xa, ya) \<and> index \<le> xa \<and> (truthy (peek tokens index) \<longrightarrow> index < xa)"
  "parser_dom (Inl (Inr (Inl (Inr (tokens, index, c))))) \<Longrightarrow> (x, xa, ya) = parseEquality tokens index c \<Longrightarrow>
     parseEquality tokens index c = (x, xa, ya) \<and> index \<le> xa \<and> (truthy (peek tokens index) \<longrightarrow> index < xa)"
  "parser_dom (Inl (Inr (Inr (Inr (tokens, index, c))))) \<Longrightarrow> (x, xa, ya) = parseComparison tokens index c \<Longrightarrow>
     parseComparison tokens index c = (x, xa, ya) \<and> index \<le> xa \<and> (truthy (peek tokens index) \<longrightarrow> index < xa)"
  "parser_dom (Inr (Inl (Inl (Inr (tokens, index, c))))) \<Longrightarrow> (x, xa, ya) = parseAddSub tokens index c \<Longrightarrow>
     parseAddSub tokens index c = (x, xa, ya) \<and> index \<le> xa \<and> (truthy (peek tokens index) \<longrightarrow> index < xa)"
  "parser_dom (Inr (Inl (Inr (Inr (tokens, index, c))))) \<Longrightarrow> (x, xa, ya) = parseMulDiv tokens index c \<Longrightarrow>
     parseMulDiv tokens index c = (x, xa, ya) \<and> index \<le> xa \<and> (truthy (peek tokens index) \<longrightarrow> index < xa)"
  "parser_dom (Inr (Inr (Inl (Inr (tokens, index, c))))) \<Longrightarrow> (x, xa, ya) = parseUnary tokens index c \<Longrightarrow>
     parseUnary tokens index c = (x, xa, ya) \<and> index \<le> xa \<and> (truthy (peek tokens index) \<longrightarrow> index < xa)"
  using parser_progress_dom(1,3,5,7,9,11,13)[of tokens index c] by (metis fst_conv snd_conv)+

termination parseLogicalOr
proof (relation "inv_image (less_than <*lex*> less_than) parser_measure")
  show "wf (inv_image (less_than <*lex*> less_than) parser_measure)"
    by (intro wf_inv_image wf_lex_prod wf_less_than)
qed (auto simp: parser_measure_def consume_def peek_def truthy_def
       dest!: parser_progress_eq split: if_splits)

text \<open>
  The equations of the parser are unconditional and recursive; they are used one call at
  a time, not as rewrite rules.
\<close>

lemmas parser_simps =
  parseLogicalOr.simps parseLogicalOr_while.simps parseLogicalAnd.simps
  parseLogicalAnd_while.simps parseEquality.simps parseEquality_while.simps
  parseComparison.simps parseComparison_while.simps parseAddSub.simps
  parseAddSub_while.simps parseMulDiv.simps parseMulDiv_while.simps
  parseUnary.simps parsePrimary.simps parsePrimary_while.simps

declare parser_simps [simp del]

definition parseExpressionRecursive :: "string \<Rightarrow> nat \<Rightarrow> ASTNode \<times> nat" where
  "parseExpressionRecursive input c =
     (case parseLogicalOr (tokenizeExpression input) 0 c of (n, index, c1) \<Rightarrow> (n, c1))"

section \<open>The statement classifier\<close>

text \<open>
  \<^verbatim>\<open>xs[i]\<close> on an array gives \<^verbatim>\<open>undefined\<close> out of range: \<open>nth_opt\<close>. The arrays that
  \<^verbatim>\<open>split\<close> returns are never empty (lemmas \<open>split_not_Nil\<close> and \<open>split_ws_not_Nil\<close>
  below), so their element 0 is read with \<open>hd\<close>.
\<close>

definition nth_opt :: "'a list \<Rightarrow> nat \<Rightarrow> 'a option" where
  "nth_opt xs i = (if i < length xs then Some (xs ! i) else None)"

definition declKeywords :: "string list" where
  "declKeywords = [''int'', ''float'', ''double'', ''char'', ''void'', ''bool'', ''string'']"

definition isVariableDeclaration :: "string \<Rightarrow> string \<Rightarrow> bool" where
  "isVariableDeclaration statement language =
     (let firstWord = hd (split_ws (trim statement))
      in toLowerCase firstWord \<in> set declKeywords)"

definition isFunctionDeclaration :: "string \<Rightarrow> bool" where
  "isFunctionDeclaration statement =
     (str_includes statement ''('' \<and> str_includes statement '')'' \<and>
      (str_includes statement ''{'' \<or> endsWith statement '')'' \<or> endsWith statement '';''))"

definition parseVariableDeclaration :: "string \<Rightarrow> string \<Rightarrow> nat \<Rightarrow> ASTNode \<times> nat" where
  "parseVariableDeclaration statement language c =
     (let cleanStmt = trim (replace statement '';'' []);
          parts = split cleanStmt CHR ''='';
          leftPart = trim (hd parts);
          rightPart = map_option trim (nth_opt parts 1);
          leftTokens = split_ws leftPart;
          type = hd leftTokens;
          varName = last leftTokens
      in case createNode NT_variable_declaration (type @ '' '' @ varName) TT_keyword [] c of
           (declNode, c1) \<Rightarrow>
         case createNode NT_keyword type TT_keyword [] c1 of (typeNode, c2) \<Rightarrow>
         case createNode NT_identifier varName TT_identifier [] c2 of (nameNode, c3) \<Rightarrow>
         let declNode1 = push_child (push_child declNode typeNode) nameNode in
         if truthy rightPart then
           (case createNode NT_assignment ''='' TT_operator [] c3 of (initNode, c4) \<Rightarrow>
            case createNode NT_identifier varName TT_identifier [] c4 of (targetNode, c5) \<Rightarrow>
            case parseExpressionRecursive (the rightPart) c5 of (valueNode, c6) \<Rightarrow>
              (push_child declNode1 (push_child (push_child initNode targetNode) valueNode), c6))
         else (declNode1, c3))"

text \<open>The loop over \<^verbatim>\<open>paramList\<close> in \<^verbatim>\<open>parseFunctionDeclaration\<close>.\<close>

fun parseFunctionDeclaration_for :: "string list \<Rightarrow> ASTNode \<Rightarrow> nat \<Rightarrow> ASTNode \<times> nat" where
  "parseFunctionDeclaration_for [] paramListNode c = (paramListNode, c)"
| "parseFunctionDeclaration_for (param # paramList) paramListNode c =
     (let paramTokens = split_ws param in
      if length paramTokens \<ge> 2 then
        (let paramType = paramTokens ! 0; paramName = paramTokens ! 1 in
         case createNode NT_declaration (paramType @ '' '' @ paramName) TT_identifier [] c of
           (paramNode, c1) \<Rightarrow>
         case createNode NT_keyword paramType TT_keyword [] c1 of (typeNode, c2) \<Rightarrow>
         case createNode NT_identifier paramName TT_identifier [] c2 of (nameNode, c3) \<Rightarrow>
           parseFunctionDeclaration_for paramList
             (push_child paramListNode (push_child (push_child paramNode typeNode) nameNode)) c3)
      else parseFunctionDeclaration_for paramList paramListNode c)"

definition parseFunctionDeclaration :: "string \<Rightarrow> string \<Rightarrow> nat \<Rightarrow> ASTNode \<times> nat" where
  "parseFunctionDeclaration statement language c =
     (let parts = split statement CHR ''('';
          leftPart = trim (hd parts);
          paramsPart = (case nth_opt parts 1 of None \<Rightarrow> [] | Some p \<Rightarrow> hd (split p CHR '')''));
          leftTokens = split_ws leftPart;
          returnType = (if length leftTokens > 1 then hd leftTokens else ''void'');
          functionName = last leftTokens
      in case createNode NT_function_declaration (''Function: '' @ functionName) TT_keyword [] c of
           (functionNode, c1) \<Rightarrow>
         case (if returnType \<noteq> ''void'' then
                 (case createNode NT_keyword returnType TT_keyword [] c1 of
                    (typeNode, c2) \<Rightarrow> (push_child functionNode typeNode, c2))
               else (functionNode, c1)) of
           (functionNode1, c2) \<Rightarrow>
         case createNode NT_identifier functionName TT_identifier [] c2 of (nameNode, c3) \<Rightarrow>
         let functionNode2 = push_child functionNode1 nameNode in
         if trim paramsPart \<noteq> [] then
           (case createNode NT_parameter_list ''Parameters'' TT_keyword [] c3 of
              (paramListNode, c4) \<Rightarrow>
            case parseFunctionDeclaration_for (map trim (split paramsPart CHR '','')) paramListNode c4 of
              (paramListNode1, c5) \<Rightarrow>
                if length (children paramListNode1) > 0
                then (push_child functionNode2 paramListNode1, c5)
                else (functionNode2, c5))
         else (functionNode2, c3))"

text \<open>\<^verbatim>\<open>statement.match(...)?.[1] || ''\<close>\<close>

definition match_or_empty :: "string \<Rightarrow> string \<Rightarrow> string" where
  "match_or_empty kw statement =
     (case match_paren kw statement of None \<Rightarrow> [] | Some cap \<Rightarrow> cap)"

definition parseWhileStatement :: "string \<Rightarrow> nat \<Rightarrow> ASTNode \<times> nat" where
  "parseWhileStatement statement c =
     (let condition = match_or_empty ''while'' statement in
      case createNode NT_while_statement ''while'' TT_keyword [] c of (whileNode, c1) \<Rightarrow>
        if condition \<noteq> [] then
          (case parseExpressionRecursive condition c1 of
             (conditionNode, c2) \<Rightarrow> (push_child whileNode conditionNode, c2))
        else (whileNode, c1))"

text \<open>
  The three blocks of \<^verbatim>\<open>parseForStatement\<close> (Init, Condition, Update) are the same code
  with another label and another element of \<^verbatim>\<open>parts\<close>.
\<close>

definition parseForStatement_part :: "string \<Rightarrow> string \<Rightarrow> ASTNode \<Rightarrow> nat \<Rightarrow> ASTNode \<times> nat" where
  "parseForStatement_part label part forNode c =
     (if part \<noteq> [] then
        (case createNode NT_statement label TT_keyword [] c of (partNode, c1) \<Rightarrow>
         case parseExpressionRecursive part c1 of (exprNode, c2) \<Rightarrow>
           (push_child forNode (push_child partNode exprNode), c2))
      else (forNode, c))"

definition parseForStatement :: "string \<Rightarrow> nat \<Rightarrow> ASTNode \<times> nat" where
  "parseForStatement statement c =
     (let forContent = match_or_empty ''for'' statement in
      case createNode NT_for_statement ''for'' TT_keyword [] c of (forNode, c1) \<Rightarrow>
        if forContent \<noteq> [] then
          (let parts = map trim (split forContent CHR '';'') in
           if length parts \<ge> 3 then
             (case parseForStatement_part ''Init'' (parts ! 0) forNode c1 of (forNode1, c2) \<Rightarrow>
              case parseForStatement_part ''Condition'' (parts ! 1) forNode1 c2 of (forNode2, c3) \<Rightarrow>
                parseForStatement_part ''Update'' (parts ! 2) forNode2 c3)
           else (forNode, c1))
        else (forNode, c1))"

definition parseReturnStatement :: "string \<Rightarrow> nat \<Rightarrow> ASTNode \<times> nat" where
  "parseReturnStatement statement c =
     (let returnValue = replace (trim (replace statement ''return'' [])) '';'' [] in
      case createNode NT_return_statement ''return'' TT_keyword [] c of (returnNode, c1) \<Rightarrow>
        if returnValue \<noteq> [] then
          (case parseExpressionRecursive returnValue c1 of
             (valueNode, c2) \<Rightarrow> (push_child returnNode valueNode, c2))
        else (returnNode, c1))"

definition parseIfStatement :: "string \<Rightarrow> nat \<Rightarrow> ASTNode \<times> nat" where
  "parseIfStatement statement c =
     (let condition = match_or_empty ''if'' statement in
      case createNode NT_if_statement ''if'' TT_keyword [] c of (ifNode, c1) \<Rightarrow>
        if condition \<noteq> [] then
          (case parseExpressionRecursive condition c1 of
             (conditionNode, c2) \<Rightarrow> (push_child ifNode conditionNode, c2))
        else (ifNode, c1))"

definition parseAssignment :: "string \<Rightarrow> nat \<Rightarrow> ASTNode \<times> nat" where
  "parseAssignment statement c =
     (let parts = split statement CHR ''='';
          variable = trim (hd parts);
          val = (case nth_opt parts 1 of None \<Rightarrow> [] | Some p \<Rightarrow> replace (trim p) '';'' [])
      in case createNode NT_assignment ''='' TT_operator [] c of (assignNode, c1) \<Rightarrow>
         case createNode NT_identifier variable TT_identifier [] c1 of (targetNode, c2) \<Rightarrow>
         let assignNode1 = push_child assignNode targetNode in
         if val \<noteq> [] then
           (case parseExpressionRecursive val c2 of
              (valueNode, c3) \<Rightarrow> (push_child assignNode1 valueNode, c3))
         else (assignNode1, c2))"

definition parseExpressionStatement :: "string \<Rightarrow> nat \<Rightarrow> ASTNode \<times> nat" where
  "parseExpressionStatement statement c =
     (let cleanStmt = trim (replace statement '';'' []) in parseExpressionRecursive cleanStmt c)"

text \<open>
  \<^verbatim>\<open>parseStatement\<close>: the order of the tests is the order of the source. Its declared
  return type is \<^verbatim>\<open>ASTNode | null\<close>, but every branch returns a node.
\<close>

definition parseStatement :: "string \<Rightarrow> string \<Rightarrow> nat \<Rightarrow> ASTNode \<times> nat" where
  "parseStatement statement language c =
     (if isVariableDeclaration statement language then parseVariableDeclaration statement language c
      else if isFunctionDeclaration statement then parseFunctionDeclaration statement language c
      else if startsWith statement ''if'' then parseIfStatement statement c
      else if startsWith statement ''while'' then parseWhileStatement statement c
      else if startsWith statement ''for'' then parseForStatement statement c
      else if startsWith statement ''return'' then parseReturnStatement statement c
      else if str_includes statement ''='' \<and> \<not> str_includes statement ''==''
              \<and> \<not> isVariableDeclaration statement language then parseAssignment statement c
      else parseExpressionStatement statement c)"

section \<open>The expression parser of the expression dialect\<close>

text \<open>
  \<^verbatim>\<open>parseExpressionTokens\<close>: three nested functions named \<^verbatim>\<open>parseAddSub\<close>,
  \<^verbatim>\<open>parseMulDiv\<close> and \<^verbatim>\<open>parsePrimary\<close> like three of the statement-level parser; here they carry
  the prefix \<open>tokens_\<close>. They return \<^verbatim>\<open>ASTNode | null\<close>, an \<open>option\<close>.

  The argument loop of \<^verbatim>\<open>parsePrimary\<close> does not always advance the index, so these
  functions are not total. They take fuel: the first argument bounds the depth of the
  calls and loop iterations, and the outer \<open>None\<close> says that the fuel did not suffice.
  The source returns a value \<open>r\<close> when some fuel gives \<open>Some r\<close>, and it runs forever when
  every fuel gives \<open>None\<close>.
\<close>

function
  tokens_parseAddSub ::
    "nat \<Rightarrow> string list \<Rightarrow> nat \<Rightarrow> nat \<Rightarrow> (ASTNode option \<times> nat \<times> nat) option" and
  tokens_parseAddSub_while ::
    "nat \<Rightarrow> string list \<Rightarrow> ASTNode option \<Rightarrow> nat \<Rightarrow> nat \<Rightarrow> (ASTNode option \<times> nat \<times> nat) option" and
  tokens_parseMulDiv ::
    "nat \<Rightarrow> string list \<Rightarrow> nat \<Rightarrow> nat \<Rightarrow> (ASTNode option \<times> nat \<times> nat) option" and
  tokens_parseMulDiv_while ::
    "nat \<Rightarrow> string list \<Rightarrow> ASTNode option \<Rightarrow> nat \<Rightarrow> nat \<Rightarrow> (ASTNode option \<times> nat \<times> nat) option" and
  tokens_parsePrimary ::
    "nat \<Rightarrow> string list \<Rightarrow> nat \<Rightarrow> nat \<Rightarrow> (ASTNode option \<times> nat \<times> nat) option" and
  tokens_parsePrimary_while ::
    "nat \<Rightarrow> string list \<Rightarrow> ASTNode list \<Rightarrow> nat \<Rightarrow> nat \<Rightarrow> (ASTNode list \<times> nat \<times> nat) option"
where
  "tokens_parseAddSub 0 tokens index c = None"
| "tokens_parseAddSub (Suc fuel) tokens index c =
     (case tokens_parseMulDiv fuel tokens index c of
        None \<Rightarrow> None
      | Some (left, index1, c1) \<Rightarrow> tokens_parseAddSub_while fuel tokens left index1 c1)"
| "tokens_parseAddSub_while 0 tokens left index c = None"
| "tokens_parseAddSub_while (Suc fuel) tokens left index c =
     (if peek tokens index = Some ''+'' \<or> peek tokens index = Some ''-'' then
        (case tokens_parseMulDiv fuel tokens (consume tokens index) c of
           None \<Rightarrow> None
         | Some (right, index1, c1) \<Rightarrow>
             (case right of
                Some r \<Rightarrow>
                  (case createNode NT_binary_op (tokens ! index) TT_operator
                          (case left of Some l \<Rightarrow> [l, r] | None \<Rightarrow> [r]) c1 of
                     (opNode, c2) \<Rightarrow> tokens_parseAddSub_while fuel tokens (Some opNode) index1 c2)
              | None \<Rightarrow> tokens_parseAddSub_while fuel tokens left index1 c1))
      else Some (left, index, c))"
| "tokens_parseMulDiv 0 tokens index c = None"
| "tokens_parseMulDiv (Suc fuel) tokens index c =
     (case tokens_parsePrimary fuel tokens index c of
        None \<Rightarrow> None
      | Some (left, index1, c1) \<Rightarrow> tokens_parseMulDiv_while fuel tokens left index1 c1)"
| "tokens_parseMulDiv_while 0 tokens left index c = None"
| "tokens_parseMulDiv_while (Suc fuel) tokens left index c =
     (if peek tokens index = Some ''*'' \<or> peek tokens index = Some ''/'' then
        (case tokens_parsePrimary fuel tokens (consume tokens index) c of
           None \<Rightarrow> None
         | Some (right, index1, c1) \<Rightarrow>
             (case right of
                Some r \<Rightarrow>
                  (case createNode NT_binary_op (tokens ! index) TT_operator
                          (case left of Some l \<Rightarrow> [l, r] | None \<Rightarrow> [r]) c1 of
                     (opNode, c2) \<Rightarrow> tokens_parseMulDiv_while fuel tokens (Some opNode) index1 c2)
              | None \<Rightarrow> tokens_parseMulDiv_while fuel tokens left index1 c1))
      else Some (left, index, c))"
| "tokens_parsePrimary 0 tokens index c = None"
| "tokens_parsePrimary (Suc fuel) tokens index c =
     (if \<not> truthy (peek tokens index) then Some (None, index, c)
      else if tokens ! index = ''('' then
        (case tokens_parseAddSub fuel tokens (consume tokens index) c of
           None \<Rightarrow> None
         | Some (expr, index1, c1) \<Rightarrow> Some (expr, consume tokens index1, c1))
      else if isNumber (tokens ! index) then
        (case createNode NT_constant (tokens ! index) TT_constant [] c of
           (n, c1) \<Rightarrow> Some (Some n, consume tokens index, c1))
      else if isIdentifier (tokens ! index) then
        (if peek tokens (consume tokens index) = Some ''('' then
           (case tokens_parsePrimary_while fuel tokens [] (consume tokens (consume tokens index)) c of
              None \<Rightarrow> None
            | Some (args, index1, c1) \<Rightarrow>
                (case createNode NT_call_expression (tokens ! index) TT_identifier args c1 of
                   (n, c2) \<Rightarrow> Some (Some n, consume tokens index1, c2)))
         else
           (case createNode NT_identifier (tokens ! index) TT_identifier [] c of
              (n, c1) \<Rightarrow> Some (Some n, consume tokens index, c1)))
      else Some (None, index, c))"
| "tokens_parsePrimary_while 0 tokens args index c = None"
| "tokens_parsePrimary_while (Suc fuel) tokens args index c =
     (if truthy (peek tokens index) \<and> peek tokens index \<noteq> Some '')'' then
        (case tokens_parseAddSub fuel tokens index c of
           None \<Rightarrow> None
         | Some (arg, index1, c1) \<Rightarrow>
             tokens_parsePrimary_while fuel tokens
               (case arg of Some a \<Rightarrow> args @ [a] | None \<Rightarrow> args)
               (if peek tokens index1 = Some '','' then consume tokens index1 else index1) c1)
      else Some (args, index, c))"
  by pat_completeness auto
termination
  by (relation "measure (case_sum (case_sum fst (case_sum fst fst))
                                  (case_sum fst (case_sum fst fst)))") auto

definition parseExpressionTokens ::
  "nat \<Rightarrow> string list \<Rightarrow> nat \<Rightarrow> (ASTNode option \<times> nat) option" where
  "parseExpressionTokens fuel tokens c =
     (case tokens_parseAddSub fuel tokens 0 c of
        None \<Rightarrow> None
      | Some (result, index, c1) \<Rightarrow> Some (result, c1))"

text \<open>
  \<^verbatim>\<open>parseExpression\<close> and \<^verbatim>\<open>parseCode\<close>, the two exported functions. The argument
  \<open>nodeIdCounter\<close> is the value of the module variable when the function is called; both
  functions assign 0 to it first.
\<close>

definition parseExpression :: "nat \<Rightarrow> nat \<Rightarrow> string \<Rightarrow> (ASTNode \<times> nat) option" where
  "parseExpression fuel nodeIdCounter input =
     (let c0 = 0; tokens = tokenizeExpression input in
      case parseExpressionTokens fuel tokens c0 of
        None \<Rightarrow> None
      | Some (result, c1) \<Rightarrow>
          (case result of
             Some n \<Rightarrow> Some (n, c1)
           | None \<Rightarrow> Some (createNode NT_expression input TT_constant [] c1)))"

section \<open>The tree assembler\<close>

text \<open>The \<^verbatim>\<open>for\<close> loop of \<^verbatim>\<open>parseCode\<close> over the lines, with its three arrays.\<close>

fun parseCode_for ::
  "string list \<Rightarrow> string \<Rightarrow> ASTNode list \<Rightarrow> ASTNode list \<Rightarrow> ASTNode list \<Rightarrow> nat
   \<Rightarrow> (ASTNode list \<times> ASTNode list \<times> ASTNode list) \<times> nat" where
  "parseCode_for [] language declarations statements functions c =
     ((declarations, statements, functions), c)"
| "parseCode_for (line # lines) language declarations statements functions c =
     (let trimmedLine = trim line in
      if trimmedLine = [] \<or> startsWith trimmedLine ''//'' \<or> startsWith trimmedLine ''#''
      then parseCode_for lines language declarations statements functions c
      else
        (case parseStatement trimmedLine language c of
           (parsed, c1) \<Rightarrow>
             if node_type parsed = NT_function_declaration
             then parseCode_for lines language declarations statements (functions @ [parsed]) c1
             else if node_type parsed = NT_variable_declaration
             then parseCode_for lines language (declarations @ [parsed]) statements functions c1
             else parseCode_for lines language declarations (statements @ [parsed]) functions c1))"

definition parseCode :: "nat \<Rightarrow> nat \<Rightarrow> string \<Rightarrow> string \<Rightarrow> (ASTNode \<times> nat) option" where
  "parseCode fuel nodeIdCounter input language =
     (let c0 = 0 in
      if language = ''expression'' then
        (case parseExpression fuel c0 input of
           None \<Rightarrow> None
         | Some (exprNode, c1) \<Rightarrow>
             (case createNode NT_program ''Program'' TT_keyword [] c1 of (programNode, c2) \<Rightarrow>
              case createNode NT_statements ''Expressions'' TT_keyword [exprNode] c2 of
                (expressionsNode, c3) \<Rightarrow> Some (push_child programNode expressionsNode, c3)))
      else
        (let lines = filter (\<lambda>line. trim line \<noteq> []) (split input (CHR 0x0A)) in
         case createNode NT_program (toUpperCase language @ '' Program'') TT_keyword [] c0 of
           (programNode, c1) \<Rightarrow>
         case parseCode_for lines language [] [] [] c1 of
           ((declarations, statements, functions), c2) \<Rightarrow>
         let programNode1 =
               (if length functions > 0 then foldl push_child programNode functions
                else programNode) in
         case (if length declarations > 0 then
                 (case createNode NT_declarations ''Declarations'' TT_keyword declarations c2 of
                    (declNode, c3) \<Rightarrow> (push_child programNode1 declNode, c3))
               else (programNode1, c2)) of
           (programNode2, c3) \<Rightarrow>
         case (if length statements > 0 then
                 (case createNode NT_statements ''Statements'' TT_keyword statements c3 of
                    (stmtNode, c4) \<Rightarrow> (push_child programNode2 stmtNode, c4))
               else (programNode2, c3)) of
           (programNode3, c4) \<Rightarrow> Some (programNode3, c4)))"

section \<open>Trees and runs\<close>

text \<open>All nodes of a tree, the root first, and their ids.\<close>

fun nodes :: "ASTNode \<Rightarrow> ASTNode list" where
  "nodes (ASTNode i ty v tt ch) = ASTNode i ty v tt ch # concat (map nodes ch)"

definition ids :: "ASTNode \<Rightarrow> nat list" where
  "ids n = map node_id (nodes n)"

text \<open>
  A run of a function with fuel returns \<open>r\<close> when some fuel gives \<open>r\<close>; it diverges when no
  fuel gives a result. More fuel never changes a result (\<open>tokens_fuel_Suc\<close>), so a run
  returns at most one value.
\<close>

definition returns :: "(nat \<Rightarrow> 'a option) \<Rightarrow> 'a \<Rightarrow> bool" where
  "returns run r = (\<exists>fuel. run fuel = Some r)"

definition diverges :: "(nat \<Rightarrow> 'a option) \<Rightarrow> bool" where
  "diverges run = (\<forall>fuel. run fuel = None)"

text \<open>
  The number of children of an operator node. \<open>arity_ok\<close> is what claim C9 asks for;
  \<open>arity_weak\<close> is what the parser of the expression dialect guarantees: it builds a
  \<^verbatim>\<open>binary_op\<close> node with the right operand alone when the left one is missing, and it
  builds no \<^verbatim>\<open>unary_op\<close> node.
\<close>

definition arity_ok :: "ASTNode \<Rightarrow> bool" where
  "arity_ok n = ((node_type n = NT_binary_op \<longrightarrow> length (children n) = 2)
               \<and> (node_type n = NT_unary_op \<longrightarrow> length (children n) = 1))"

definition arity_weak :: "ASTNode \<Rightarrow> bool" where
  "arity_weak n = ((node_type n = NT_binary_op \<longrightarrow> length (children n) = 1 \<or> length (children n) = 2)
                 \<and> node_type n \<noteq> NT_unary_op)"

text \<open>
  The invariant of the proofs about ids and arities: the ids of the tree \<open>n\<close> are distinct
  and were all assigned while the counter went from \<open>lo\<close> to \<open>hi\<close>, and every node of \<open>n\<close>
  satisfies \<open>A\<close>. \<open>goods\<close> is the same for a list of trees.
\<close>

definition good :: "(ASTNode \<Rightarrow> bool) \<Rightarrow> nat \<Rightarrow> nat \<Rightarrow> ASTNode \<Rightarrow> bool" where
  "good A lo hi n =
     (lo \<le> hi \<and> distinct (ids n) \<and> (\<forall>i \<in> set (ids n). lo < i \<and> i \<le> hi)
      \<and> (\<forall>m \<in> set (nodes n). A m))"

definition goods :: "(ASTNode \<Rightarrow> bool) \<Rightarrow> nat \<Rightarrow> nat \<Rightarrow> ASTNode list \<Rightarrow> bool" where
  "goods A lo hi ns =
     (lo \<le> hi \<and> distinct (concat (map ids ns))
      \<and> (\<forall>i \<in> set (concat (map ids ns)). lo < i \<and> i \<le> hi)
      \<and> (\<forall>n \<in> set ns. \<forall>m \<in> set (nodes n). A m))"

text \<open>The invariant for a result of type \<^verbatim>\<open>ASTNode | null\<close>.\<close>

definition optgood :: "(ASTNode \<Rightarrow> bool) \<Rightarrow> nat \<Rightarrow> nat \<Rightarrow> ASTNode option \<Rightarrow> bool" where
  "optgood A lo hi r = (case r of None \<Rightarrow> lo \<le> hi | Some n \<Rightarrow> good A lo hi n)"

text \<open>
  The nodes that \<^verbatim>\<open>parseStatement\<close> returns for the lines, in line order, with the counter
  threaded through: the values the loop of \<^verbatim>\<open>parseCode\<close> distributes over its three
  arrays. This definition states the order that claim C5 speaks of; \<open>parseCode_for\<close>
  above is the loop of the source.
\<close>

fun parseCode_parsed :: "string list \<Rightarrow> string \<Rightarrow> nat \<Rightarrow> ASTNode list \<times> nat" where
  "parseCode_parsed [] language c = ([], c)"
| "parseCode_parsed (line # lines) language c =
     (let trimmedLine = trim line in
      if trimmedLine = [] \<or> startsWith trimmedLine ''//'' \<or> startsWith trimmedLine ''#''
      then parseCode_parsed lines language c
      else
        (case parseStatement trimmedLine language c of
           (parsed, c1) \<Rightarrow>
             (case parseCode_parsed lines language c1 of
                (rest, c2) \<Rightarrow> (parsed # rest, c2))))"

definition isFunctionNode :: "ASTNode \<Rightarrow> bool" where
  "isFunctionNode n = (node_type n = NT_function_declaration)"

definition isDeclarationNode :: "ASTNode \<Rightarrow> bool" where
  "isDeclarationNode n = (node_type n = NT_variable_declaration)"

definition isOtherNode :: "ASTNode \<Rightarrow> bool" where
  "isOtherNode n = (\<not> isFunctionNode n \<and> \<not> isDeclarationNode n)"

text \<open>
  A token on which the argument loop of \<^verbatim>\<open>parsePrimary\<close> (expression dialect) makes no
  progress: \<^verbatim>\<open>parseAddSub\<close> returns \<^verbatim>\<open>null\<close> without consuming it, and it is neither the
  closing parenthesis nor a comma.
\<close>

definition stuck_token :: "string \<Rightarrow> bool" where
  "stuck_token t = (t \<noteq> [] \<and> t \<notin> set [''('', '')'', '','', ''+'', ''-'', ''*'', ''/'']
                    \<and> \<not> isNumber t \<and> \<not> isIdentifier t)"

section \<open>Fuel\<close>

lemmas tokens_parse_simps =
  tokens_parseAddSub.simps tokens_parseAddSub_while.simps tokens_parseMulDiv.simps
  tokens_parseMulDiv_while.simps tokens_parsePrimary.simps tokens_parsePrimary_while.simps

lemma tokens_fuel_Suc:
  shows "\<And>tokens index c r. tokens_parseAddSub fuel tokens index c = Some r
       \<Longrightarrow> tokens_parseAddSub (Suc fuel) tokens index c = Some r"
    and "\<And>tokens left index c r. tokens_parseAddSub_while fuel tokens left index c = Some r
       \<Longrightarrow> tokens_parseAddSub_while (Suc fuel) tokens left index c = Some r"
    and "\<And>tokens index c r. tokens_parseMulDiv fuel tokens index c = Some r
       \<Longrightarrow> tokens_parseMulDiv (Suc fuel) tokens index c = Some r"
    and "\<And>tokens left index c r. tokens_parseMulDiv_while fuel tokens left index c = Some r
       \<Longrightarrow> tokens_parseMulDiv_while (Suc fuel) tokens left index c = Some r"
    and "\<And>tokens index c r. tokens_parsePrimary fuel tokens index c = Some r
       \<Longrightarrow> tokens_parsePrimary (Suc fuel) tokens index c = Some r"
    and "\<And>tokens args index c r. tokens_parsePrimary_while fuel tokens args index c = Some r
       \<Longrightarrow> tokens_parsePrimary_while (Suc fuel) tokens args index c = Some r"
proof (induct fuel)
  case 0
  {
    case 1 then show ?case by simp
  next
    case 2 then show ?case by simp
  next
    case 3 then show ?case by simp
  next
    case 4 then show ?case by simp
  next
    case 5 then show ?case by simp
  next
    case 6 then show ?case by simp
  }
next
  case (Suc fuel)
  note IH = Suc.hyps
  {
    case (1 tokens index c r)
    then show ?case
      apply (subst (asm) tokens_parseAddSub.simps(2))
      apply (subst tokens_parseAddSub.simps(2))
      apply (auto simp del: tokens_parse_simps split: option.splits prod.splits if_splits
                  dest!: IH(3) IH(2))
      done
  next
    case (2 tokens left index c r)
    then show ?case
      apply (subst (asm) tokens_parseAddSub_while.simps(2))
      apply (subst tokens_parseAddSub_while.simps(2))
      apply (auto simp del: tokens_parse_simps split: option.splits prod.splits if_splits
                  dest!: IH(3) IH(2))
      done
  next
    case (3 tokens index c r)
    then show ?case
      apply (subst (asm) tokens_parseMulDiv.simps(2))
      apply (subst tokens_parseMulDiv.simps(2))
      apply (auto simp del: tokens_parse_simps split: option.splits prod.splits if_splits
                  dest!: IH(5) IH(4))
      done
  next
    case (4 tokens left index c r)
    then show ?case
      apply (subst (asm) tokens_parseMulDiv_while.simps(2))
      apply (subst tokens_parseMulDiv_while.simps(2))
      apply (auto simp del: tokens_parse_simps split: option.splits prod.splits if_splits
                  dest!: IH(5) IH(4))
      done
  next
    case (5 tokens index c r)
    then show ?case
      apply (subst (asm) tokens_parsePrimary.simps(2))
      apply (subst tokens_parsePrimary.simps(2))
      apply (auto simp del: tokens_parse_simps split: option.splits prod.splits if_splits
                  dest!: IH(1) IH(6))
      done
  next
    case (6 tokens args index c r)
    then show ?case
      apply (subst (asm) tokens_parsePrimary_while.simps(2))
      apply (subst tokens_parsePrimary_while.simps(2))
      apply (auto simp del: tokens_parse_simps split: option.splits prod.splits if_splits
                  dest!: IH(1) IH(6))
      done
  }
qed

lemma tokens_parseAddSub_fuel_mono:
  assumes "fuel \<le> fuel'" and "tokens_parseAddSub fuel tokens index c = Some r"
  shows "tokens_parseAddSub fuel' tokens index c = Some r"
  using assms by (induct rule: dec_induct) (auto dest: tokens_fuel_Suc(1))

lemma parseExpression_fuel_mono:
  assumes "parseExpression fuel k input = Some r" and "fuel \<le> fuel'"
  shows "parseExpression fuel' k input = Some r"
proof -
  from assms(1) obtain q where q: "tokens_parseAddSub fuel (tokenizeExpression input) 0 0 = Some q"
    by (auto simp: parseExpression_def parseExpressionTokens_def split: option.splits)
  from tokens_parseAddSub_fuel_mono[OF assms(2) q] q assms(1) show ?thesis
    by (simp add: parseExpression_def parseExpressionTokens_def)
qed

lemma parseCode_fuel_mono:
  assumes "parseCode fuel k input language = Some r" and "fuel \<le> fuel'"
  shows "parseCode fuel' k input language = Some r"
proof (cases "language = ''expression''")
  case True
  with assms(1) obtain q where q: "parseExpression fuel 0 input = Some q"
    by (auto simp: parseCode_def split: option.splits)
  from parseExpression_fuel_mono[OF q assms(2)] q assms(1) True show ?thesis
    by (simp add: parseCode_def)
next
  case False
  with assms(1) show ?thesis by (simp add: parseCode_def)
qed

lemma returns_parseExpression_unique:
  assumes "returns (\<lambda>fuel. parseExpression fuel k input) r"
      and "returns (\<lambda>fuel. parseExpression fuel k input) r'"
  shows "r = r'"
proof -
  from assms obtain f f' where a: "parseExpression f k input = Some r"
    and b: "parseExpression f' k input = Some r'" by (auto simp: returns_def)
  from parseExpression_fuel_mono[OF a, of "max f f'"] parseExpression_fuel_mono[OF b, of "max f f'"]
  show ?thesis by simp
qed

lemma returns_parseCode_unique:
  assumes "returns (\<lambda>fuel. parseCode fuel k input language) r"
      and "returns (\<lambda>fuel. parseCode fuel k input language) r'"
  shows "r = r'"
proof -
  from assms obtain f f' where a: "parseCode f k input language = Some r"
    and b: "parseCode f' k input language = Some r'" by (auto simp: returns_def)
  from parseCode_fuel_mono[OF a, of "max f f'"] parseCode_fuel_mono[OF b, of "max f f'"]
  show ?thesis by simp
qed

section \<open>Node construction\<close>

lemma createNode_eq: "createNode ty v tt ch c = (ASTNode (Suc c) ty v tt ch, Suc c)"
  by (simp add: createNode_def generateNodeId_def)

lemma push_child_eq: "push_child (ASTNode i ty v tt ch) x = ASTNode i ty v tt (ch @ [x])"
  by (simp add: push_child_def)

lemma push_child_sel [simp]:
  "node_id (push_child n x) = node_id n"
  "node_type (push_child n x) = node_type n"
  "node_value (push_child n x) = node_value n"
  "tokenType (push_child n x) = tokenType n"
  "children (push_child n x) = children n @ [x]"
  by (simp_all add: push_child_def)

lemma foldl_push_child_sel [simp]:
  "node_id (foldl push_child n xs) = node_id n"
  "node_type (foldl push_child n xs) = node_type n"
  "node_value (foldl push_child n xs) = node_value n"
  "tokenType (foldl push_child n xs) = tokenType n"
  "children (foldl push_child n xs) = children n @ xs"
  by (induct xs arbitrary: n) simp_all

section \<open>Operator precedence\<close>

text \<open>
  The tokenizer on a number: no character of a string that matches \<^verbatim>\<open>/^\d+(\.\d+)?$/\<close> is
  white space or a split character, so the whole string is one token.
\<close>

lemma tokenizeExpression_loop_plain:
  "\<forall>ch \<in> set s. \<not> isWhitespace ch \<and> \<not> isSplitChar ch \<Longrightarrow>
   tokenizeExpression_loop (s @ rest) tokens current
     = tokenizeExpression_loop rest tokens (current @ s)"
  by (induct s arbitrary: current) simp_all

lemma isDigit_plain: "isDigit ch \<Longrightarrow> \<not> isWhitespace ch \<and> \<not> isSplitChar ch"
  by (auto simp: isDigit_def isWhitespace_def isSplitChar_def)

lemma dot_plain: "\<not> isWhitespace CHR ''.'' \<and> \<not> isSplitChar CHR ''.''"
  by (simp add: isWhitespace_def isSplitChar_def)

lemma isNumber_plain:
  assumes "isNumber s"
  shows "s \<noteq> [] \<and> (\<forall>ch \<in> set s. \<not> isWhitespace ch \<and> \<not> isSplitChar ch)"
proof -
  from assms have ne: "s \<noteq> []" by (auto simp: isNumber_def)
  have 1: "\<not> isWhitespace ch \<and> \<not> isSplitChar ch" if "ch \<in> set (takeWhile isDigit s)" for ch
    using that isDigit_plain by (auto dest: set_takeWhileD)
  have 2: "\<not> isWhitespace ch \<and> \<not> isSplitChar ch" if "ch \<in> set (dropWhile isDigit s)" for ch
  proof (cases "dropWhile isDigit s")
    case Nil
    with that show ?thesis by simp
  next
    case (Cons d r)
    with assms have "d = CHR ''.''" "list_all isDigit r" by (auto simp: isNumber_def)
    with that Cons show ?thesis using isDigit_plain dot_plain by (auto simp: list_all_iff)
  qed
  have "set s = set (takeWhile isDigit s) \<union> set (dropWhile isDigit s)"
    by (metis set_append takeWhile_dropWhile_id)
  with 1 2 ne show ?thesis by auto
qed

lemma tokenizeExpression_loop_number:
  "isNumber s \<Longrightarrow>
   tokenizeExpression_loop (s @ rest) tokens current
     = tokenizeExpression_loop rest tokens (current @ s)"
  by (rule tokenizeExpression_loop_plain) (simp add: isNumber_plain)

lemma tokenizeExpression_loop_operator:
  "p \<in> set ''+-*/()'' \<Longrightarrow>
   tokenizeExpression_loop (p # rest) tokens current
     = tokenizeExpression_loop rest
         (if current \<noteq> [] then tokens @ [current, [p]] else tokens @ [[p]]) []"
  by (auto simp: isWhitespace_def isSplitChar_def)

lemma tokenizeExpression_loop_last:
  "isNumber s \<Longrightarrow> tokenizeExpression_loop s tokens [] = (tokens, s)"
  using tokenizeExpression_loop_number[of s "[]" tokens "[]"] by simp

lemma tokenizeExpression_infix:
  assumes "isNumber a" "isNumber b" "isNumber c" "p \<in> set ''+-*/''" "q \<in> set ''+-*/''"
  shows "tokenizeExpression (a @ [p] @ b @ [q] @ c) = [a, [p], b, [q], c]"
    and "tokenizeExpression (''('' @ a @ [p] @ b @ '')'' @ [q] @ c)
           = [''('', a, [p], b, '')'', [q], c]"
    and "tokenizeExpression (a @ [q] @ ''('' @ b @ [p] @ c @ '')'')
           = [a, [q], ''('', b, [p], c, '')'']"
proof -
  from assms have o: "p \<in> set ''+-*/()''" "q \<in> set ''+-*/()''"
    "CHR ''('' \<in> set ''+-*/()''" "CHR '')'' \<in> set ''+-*/()''" by auto
  note ne = isNumber_plain[OF assms(1)] isNumber_plain[OF assms(2)] isNumber_plain[OF assms(3)]
  note s = tokenizeExpression_loop_number[OF assms(1)] tokenizeExpression_loop_number[OF assms(2)]
    tokenizeExpression_loop_number[OF assms(3)] tokenizeExpression_loop_last[OF assms(3)]
    tokenizeExpression_loop_operator[OF o(1)] tokenizeExpression_loop_operator[OF o(2)]
    tokenizeExpression_loop_operator[OF o(3)] tokenizeExpression_loop_operator[OF o(4)]
    tokenizeExpression_loop.simps(1)
  have "tokenizeExpression_loop (a @ p # b @ q # c) [] [] = ([a, [p], b, [q]], c)"
    using ne by (simp add: s del: tokenizeExpression_loop.simps(2))
  with ne show "tokenizeExpression (a @ [p] @ b @ [q] @ c) = [a, [p], b, [q], c]"
    by (simp add: tokenizeExpression_def)
  have "tokenizeExpression_loop (CHR ''('' # a @ p # b @ CHR '')'' # q # c) [] []
          = ([''('', a, [p], b, '')'', [q]], c)"
    using ne by (simp add: s del: tokenizeExpression_loop.simps(2))
  with ne show "tokenizeExpression (''('' @ a @ [p] @ b @ '')'' @ [q] @ c)
           = [''('', a, [p], b, '')'', [q], c]"
    by (simp add: tokenizeExpression_def)
  have "tokenizeExpression_loop (a @ q # CHR ''('' # b @ p # c @ '')'') [] []
          = ([a, [q], ''('', b, [p], c, '')''], [])"
    using ne by (simp add: s del: tokenizeExpression_loop.simps(2))
  with ne show "tokenizeExpression (a @ [q] @ ''('' @ b @ [p] @ c @ '')'')
           = [a, [q], ''('', b, [p], c, '')'']"
    by (simp add: tokenizeExpression_def)
qed

text \<open>
  Both parsers on the token lists of the four shapes \<^verbatim>\<open>a o1 b o2 c\<close>, \<^verbatim>\<open>a o2 b o1 c\<close>,
  \<^verbatim>\<open>(a o1 b) o2 c\<close> and \<^verbatim>\<open>a o2 (b o1 c)\<close>, where \<open>a\<close>, \<open>b\<close>, \<open>c\<close> are numbers, \<open>o1\<close> is
  additive and \<open>o2\<close> is multiplicative.
\<close>

lemma isNumber_not_operator:
  "isNumber s \<Longrightarrow>
   s \<notin> {''('', '')'', '','', ''+'', ''-'', ''*'', ''/'', ''%'', ''!'', ''++'', ''--'',
         ''||'', ''&&'', ''=='', ''!='', ''<'', ''>'', ''<='', ''>=''} \<and> s \<noteq> []"
  by (auto simp: isNumber_def isDigit_def)

lemma tokens_parseAddSub_precedence:
  assumes "isNumber a" "isNumber b" "isNumber c"
    and "o1 \<in> {''+'', ''-''}" "o2 \<in> {''*'', ''/''}"
  shows "tokens_parseAddSub 10 [a, o1, b, o2, c] 0 k =
     Some (Some (ASTNode (k + 5) NT_binary_op o1 TT_operator
        [ASTNode (k + 1) NT_constant a TT_constant [],
         ASTNode (k + 4) NT_binary_op o2 TT_operator
           [ASTNode (k + 2) NT_constant b TT_constant [],
            ASTNode (k + 3) NT_constant c TT_constant []]]), 5, k + 5)"
    and "tokens_parseAddSub 10 [a, o2, b, o1, c] 0 k =
     Some (Some (ASTNode (k + 5) NT_binary_op o1 TT_operator
        [ASTNode (k + 3) NT_binary_op o2 TT_operator
           [ASTNode (k + 1) NT_constant a TT_constant [],
            ASTNode (k + 2) NT_constant b TT_constant []],
         ASTNode (k + 4) NT_constant c TT_constant []]), 5, k + 5)"
    and "tokens_parseAddSub 10 [''('', a, o1, b, '')'', o2, c] 0 k =
     Some (Some (ASTNode (k + 5) NT_binary_op o2 TT_operator
        [ASTNode (k + 3) NT_binary_op o1 TT_operator
           [ASTNode (k + 1) NT_constant a TT_constant [],
            ASTNode (k + 2) NT_constant b TT_constant []],
         ASTNode (k + 4) NT_constant c TT_constant []]), 7, k + 5)"
    and "tokens_parseAddSub 10 [a, o2, ''('', b, o1, c, '')''] 0 k =
     Some (Some (ASTNode (k + 5) NT_binary_op o2 TT_operator
        [ASTNode (k + 1) NT_constant a TT_constant [],
         ASTNode (k + 4) NT_binary_op o1 TT_operator
           [ASTNode (k + 2) NT_constant b TT_constant [],
            ASTNode (k + 3) NT_constant c TT_constant []]]), 7, k + 5)"
  using assms(4,5) isNumber_not_operator[OF assms(1)] isNumber_not_operator[OF assms(2)]
    isNumber_not_operator[OF assms(3)] assms(1-3)
  by (elim insertE emptyE;
      simp add: eval_nat_numeral peek_def consume_def truthy_def createNode_eq)+

lemma parseLogicalOr_precedence:
  assumes "isNumber a" "isNumber b" "isNumber c"
    and "o1 \<in> {''+'', ''-''}" "o2 \<in> {''*'', ''/''}"
  shows "parseLogicalOr [a, o1, b, o2, c] 0 k =
     (ASTNode (k + 5) NT_binary_op o1 TT_operator
        [ASTNode (k + 1) NT_constant a TT_constant [],
         ASTNode (k + 4) NT_binary_op o2 TT_operator
           [ASTNode (k + 2) NT_constant b TT_constant [],
            ASTNode (k + 3) NT_constant c TT_constant []]], 5, k + 5)"
    and "parseLogicalOr [a, o2, b, o1, c] 0 k =
     (ASTNode (k + 5) NT_binary_op o1 TT_operator
        [ASTNode (k + 3) NT_binary_op o2 TT_operator
           [ASTNode (k + 1) NT_constant a TT_constant [],
            ASTNode (k + 2) NT_constant b TT_constant []],
         ASTNode (k + 4) NT_constant c TT_constant []], 5, k + 5)"
    and "parseLogicalOr [''('', a, o1, b, '')'', o2, c] 0 k =
     (ASTNode (k + 5) NT_binary_op o2 TT_operator
        [ASTNode (k + 3) NT_binary_op o1 TT_operator
           [ASTNode (k + 1) NT_constant a TT_constant [],
            ASTNode (k + 2) NT_constant b TT_constant []],
         ASTNode (k + 4) NT_constant c TT_constant []], 7, k + 5)"
    and "parseLogicalOr [a, o2, ''('', b, o1, c, '')''] 0 k =
     (ASTNode (k + 5) NT_binary_op o2 TT_operator
        [ASTNode (k + 1) NT_constant a TT_constant [],
         ASTNode (k + 4) NT_binary_op o1 TT_operator
           [ASTNode (k + 2) NT_constant b TT_constant [],
            ASTNode (k + 3) NT_constant c TT_constant []]], 7, k + 5)"
  using assms(4,5) isNumber_not_operator[OF assms(1)] isNumber_not_operator[OF assms(2)]
    isNumber_not_operator[OF assms(3)] assms(1-3)
  by (elim insertE emptyE;
      simp add: parser_simps eval_nat_numeral peek_def consume_def truthy_def createNode_eq
        push_child_eq)+

lemma parseExpression_returns:
  "tokens_parseAddSub fuel (tokenizeExpression input) 0 0 = Some (Some t, index, c')
   \<Longrightarrow> returns (\<lambda>fuel. parseExpression fuel nodeIdCounter input) (t, c')"
  unfolding returns_def
  by (rule exI[of _ fuel]) (simp add: parseExpression_def parseExpressionTokens_def)

lemma operator_strings:
  "o1 \<in> {''+'', ''-''} \<Longrightarrow> \<exists>p. o1 = [p] \<and> p \<in> set ''+-*/''"
  "o2 \<in> {''*'', ''/''} \<Longrightarrow> \<exists>q. o2 = [q] \<and> q \<in> set ''+-*/''"
  by auto

text \<open>
  Claim C3. The expression parser binds the multiplicative operators tighter than the
  additive ones, and parentheses override this. For all numbers \<open>a\<close>, \<open>b\<close>, \<open>c\<close> (strings
  that match \<^verbatim>\<open>/^\d+(\.\d+)?$/\<close>), every additive operator \<open>o1\<close> (\<^verbatim>\<open>+\<close> or \<^verbatim>\<open>-\<close>) and every
  multiplicative operator \<open>o2\<close> (\<^verbatim>\<open>*\<close> or \<^verbatim>\<open>/\<close>):

    \<^item> \<^verbatim>\<open>a o1 b o2 c\<close> gives the root \<open>o1\<close> with the left child \<open>a\<close> and the right child \<open>o2\<close>
      over \<open>b\<close> and \<open>c\<close>;
    \<^item> \<^verbatim>\<open>a o2 b o1 c\<close> gives the root \<open>o1\<close> with the left child \<open>o2\<close> over \<open>a\<close> and \<open>b\<close> and
      the right child \<open>c\<close>;
    \<^item> \<^verbatim>\<open>(a o1 b) o2 c\<close> gives the root \<open>o2\<close> with the left child \<open>o1\<close> over \<open>a\<close> and \<open>b\<close> and
      the right child \<open>c\<close>;
    \<^item> \<^verbatim>\<open>a o2 (b o1 c)\<close> gives the root \<open>o2\<close> with the left child \<open>a\<close> and the right child
      \<open>o1\<close> over \<open>b\<close> and \<open>c\<close>.

  This holds for \<^verbatim>\<open>parseExpression\<close> (whatever the counter was before the call) and for
  the statement-level \<^verbatim>\<open>parseExpressionRecursive\<close> (from every counter \<open>k\<close>). The two inputs
  of the claim follow without any hypothesis: parsing \<^verbatim>\<open>2+3*4\<close> gives a root \<^verbatim>\<open>binary_op\<close>
  with lexeme \<^verbatim>\<open>+\<close> whose right child is the \<^verbatim>\<open>binary_op\<close> with lexeme \<^verbatim>\<open>*\<close>; parsing
  \<^verbatim>\<open>(1+2)*3\<close> gives a root \<^verbatim>\<open>*\<close> whose left child is \<^verbatim>\<open>+\<close> over the constants 1 and 2 and
  whose right child is the constant 3. A run returns at most one value
  (\<open>returns_parseExpression_unique\<close>), so the reverse nesting is never returned.
\<close>

theorem C3_precedence:
  "(isNumber a \<and> isNumber b \<and> isNumber c \<and> o1 \<in> {''+'', ''-''} \<and> o2 \<in> {''*'', ''/''} \<longrightarrow>
      returns (\<lambda>fuel. parseExpression fuel nodeIdCounter (a @ o1 @ b @ o2 @ c))
        (ASTNode 5 NT_binary_op o1 TT_operator
           [ASTNode 1 NT_constant a TT_constant [],
            ASTNode 4 NT_binary_op o2 TT_operator
              [ASTNode 2 NT_constant b TT_constant [],
               ASTNode 3 NT_constant c TT_constant []]], 5)
    \<and> returns (\<lambda>fuel. parseExpression fuel nodeIdCounter (a @ o2 @ b @ o1 @ c))
        (ASTNode 5 NT_binary_op o1 TT_operator
           [ASTNode 3 NT_binary_op o2 TT_operator
              [ASTNode 1 NT_constant a TT_constant [],
               ASTNode 2 NT_constant b TT_constant []],
            ASTNode 4 NT_constant c TT_constant []], 5)
    \<and> returns (\<lambda>fuel. parseExpression fuel nodeIdCounter (''('' @ a @ o1 @ b @ '')'' @ o2 @ c))
        (ASTNode 5 NT_binary_op o2 TT_operator
           [ASTNode 3 NT_binary_op o1 TT_operator
              [ASTNode 1 NT_constant a TT_constant [],
               ASTNode 2 NT_constant b TT_constant []],
            ASTNode 4 NT_constant c TT_constant []], 5)
    \<and> returns (\<lambda>fuel. parseExpression fuel nodeIdCounter (a @ o2 @ ''('' @ b @ o1 @ c @ '')''))
        (ASTNode 5 NT_binary_op o2 TT_operator
           [ASTNode 1 NT_constant a TT_constant [],
            ASTNode 4 NT_binary_op o1 TT_operator
              [ASTNode 2 NT_constant b TT_constant [],
               ASTNode 3 NT_constant c TT_constant []]], 5)
    \<and> parseExpressionRecursive (a @ o1 @ b @ o2 @ c) k =
        (ASTNode (k + 5) NT_binary_op o1 TT_operator
           [ASTNode (k + 1) NT_constant a TT_constant [],
            ASTNode (k + 4) NT_binary_op o2 TT_operator
              [ASTNode (k + 2) NT_constant b TT_constant [],
               ASTNode (k + 3) NT_constant c TT_constant []]], k + 5)
    \<and> parseExpressionRecursive (a @ o2 @ b @ o1 @ c) k =
        (ASTNode (k + 5) NT_binary_op o1 TT_operator
           [ASTNode (k + 3) NT_binary_op o2 TT_operator
              [ASTNode (k + 1) NT_constant a TT_constant [],
               ASTNode (k + 2) NT_constant b TT_constant []],
            ASTNode (k + 4) NT_constant c TT_constant []], k + 5)
    \<and> parseExpressionRecursive (''('' @ a @ o1 @ b @ '')'' @ o2 @ c) k =
        (ASTNode (k + 5) NT_binary_op o2 TT_operator
           [ASTNode (k + 3) NT_binary_op o1 TT_operator
              [ASTNode (k + 1) NT_constant a TT_constant [],
               ASTNode (k + 2) NT_constant b TT_constant []],
            ASTNode (k + 4) NT_constant c TT_constant []], k + 5)
    \<and> parseExpressionRecursive (a @ o2 @ ''('' @ b @ o1 @ c @ '')'') k =
        (ASTNode (k + 5) NT_binary_op o2 TT_operator
           [ASTNode (k + 1) NT_constant a TT_constant [],
            ASTNode (k + 4) NT_binary_op o1 TT_operator
              [ASTNode (k + 2) NT_constant b TT_constant [],
               ASTNode (k + 3) NT_constant c TT_constant []]], k + 5))
   \<and> returns (\<lambda>fuel. parseExpression fuel nodeIdCounter ''2+3*4'')
     (ASTNode 5 NT_binary_op ''+'' TT_operator
        [ASTNode 1 NT_constant ''2'' TT_constant [],
         ASTNode 4 NT_binary_op ''*'' TT_operator
           [ASTNode 2 NT_constant ''3'' TT_constant [],
            ASTNode 3 NT_constant ''4'' TT_constant []]], 5)
   \<and> returns (\<lambda>fuel. parseExpression fuel nodeIdCounter ''(1+2)*3'')
     (ASTNode 5 NT_binary_op ''*'' TT_operator
        [ASTNode 3 NT_binary_op ''+'' TT_operator
           [ASTNode 1 NT_constant ''1'' TT_constant [],
            ASTNode 2 NT_constant ''2'' TT_constant []],
         ASTNode 4 NT_constant ''3'' TT_constant []], 5)
   \<and> fst (parseExpressionRecursive ''2+3*4'' 0) =
       ASTNode 5 NT_binary_op ''+'' TT_operator
        [ASTNode 1 NT_constant ''2'' TT_constant [],
         ASTNode 4 NT_binary_op ''*'' TT_operator
           [ASTNode 2 NT_constant ''3'' TT_constant [],
            ASTNode 3 NT_constant ''4'' TT_constant []]]
   \<and> fst (parseExpressionRecursive ''(1+2)*3'' 0) =
       ASTNode 5 NT_binary_op ''*'' TT_operator
        [ASTNode 3 NT_binary_op ''+'' TT_operator
           [ASTNode 1 NT_constant ''1'' TT_constant [],
            ASTNode 2 NT_constant ''2'' TT_constant []],
         ASTNode 4 NT_constant ''3'' TT_constant []]"
proof (intro conjI impI)
  assume h: "isNumber a \<and> isNumber b \<and> isNumber c \<and> o1 \<in> {''+'', ''-''} \<and> o2 \<in> {''*'', ''/''}"
  then have n: "isNumber a" "isNumber b" "isNumber c"
    and o: "o1 \<in> {''+'', ''-''}" "o2 \<in> {''*'', ''/''}" by simp_all
  from operator_strings(1)[OF o(1)] operator_strings(2)[OF o(2)] obtain p q where
    p: "o1 = [p]" "p \<in> set ''+-*/''" and q: "o2 = [q]" "q \<in> set ''+-*/''" by blast
  note t1 = tokenizeExpression_infix[OF n p(2) q(2), folded p(1) q(1), simplified]
  note t2 = tokenizeExpression_infix(1)[OF n q(2) p(2), folded p(1) q(1), simplified]
  note s = tokens_parseAddSub_precedence[OF n o, of 0]
  note r = parseLogicalOr_precedence[OF n o, of k]
  show "returns (\<lambda>fuel. parseExpression fuel nodeIdCounter (a @ o1 @ b @ o2 @ c))
        (ASTNode 5 NT_binary_op o1 TT_operator
           [ASTNode 1 NT_constant a TT_constant [],
            ASTNode 4 NT_binary_op o2 TT_operator
              [ASTNode 2 NT_constant b TT_constant [],
               ASTNode 3 NT_constant c TT_constant []]], 5)"
    by (rule parseExpression_returns[of 10 _ _ 5]) (simp add: t1 s)
  show "returns (\<lambda>fuel. parseExpression fuel nodeIdCounter (a @ o2 @ b @ o1 @ c))
        (ASTNode 5 NT_binary_op o1 TT_operator
           [ASTNode 3 NT_binary_op o2 TT_operator
              [ASTNode 1 NT_constant a TT_constant [],
               ASTNode 2 NT_constant b TT_constant []],
            ASTNode 4 NT_constant c TT_constant []], 5)"
    by (rule parseExpression_returns[of 10 _ _ 5]) (simp add: t2 s)
  show "returns (\<lambda>fuel. parseExpression fuel nodeIdCounter (''('' @ a @ o1 @ b @ '')'' @ o2 @ c))
        (ASTNode 5 NT_binary_op o2 TT_operator
           [ASTNode 3 NT_binary_op o1 TT_operator
              [ASTNode 1 NT_constant a TT_constant [],
               ASTNode 2 NT_constant b TT_constant []],
            ASTNode 4 NT_constant c TT_constant []], 5)"
    by (rule parseExpression_returns[of 10 _ _ 7]) (simp add: t1 s)
  show "returns (\<lambda>fuel. parseExpression fuel nodeIdCounter (a @ o2 @ ''('' @ b @ o1 @ c @ '')''))
        (ASTNode 5 NT_binary_op o2 TT_operator
           [ASTNode 1 NT_constant a TT_constant [],
            ASTNode 4 NT_binary_op o1 TT_operator
              [ASTNode 2 NT_constant b TT_constant [],
               ASTNode 3 NT_constant c TT_constant []]], 5)"
    by (rule parseExpression_returns[of 10 _ _ 7]) (simp add: t1 s)
  show "parseExpressionRecursive (a @ o1 @ b @ o2 @ c) k =
        (ASTNode (k + 5) NT_binary_op o1 TT_operator
           [ASTNode (k + 1) NT_constant a TT_constant [],
            ASTNode (k + 4) NT_binary_op o2 TT_operator
              [ASTNode (k + 2) NT_constant b TT_constant [],
               ASTNode (k + 3) NT_constant c TT_constant []]], k + 5)"
    by (simp add: parseExpressionRecursive_def t1 r)
  show "parseExpressionRecursive (a @ o2 @ b @ o1 @ c) k =
        (ASTNode (k + 5) NT_binary_op o1 TT_operator
           [ASTNode (k + 3) NT_binary_op o2 TT_operator
              [ASTNode (k + 1) NT_constant a TT_constant [],
               ASTNode (k + 2) NT_constant b TT_constant []],
            ASTNode (k + 4) NT_constant c TT_constant []], k + 5)"
    by (simp add: parseExpressionRecursive_def t2 r)
  show "parseExpressionRecursive (''('' @ a @ o1 @ b @ '')'' @ o2 @ c) k =
        (ASTNode (k + 5) NT_binary_op o2 TT_operator
           [ASTNode (k + 3) NT_binary_op o1 TT_operator
              [ASTNode (k + 1) NT_constant a TT_constant [],
               ASTNode (k + 2) NT_constant b TT_constant []],
            ASTNode (k + 4) NT_constant c TT_constant []], k + 5)"
    by (simp add: parseExpressionRecursive_def t1 r)
  show "parseExpressionRecursive (a @ o2 @ ''('' @ b @ o1 @ c @ '')'') k =
        (ASTNode (k + 5) NT_binary_op o2 TT_operator
           [ASTNode (k + 1) NT_constant a TT_constant [],
            ASTNode (k + 4) NT_binary_op o1 TT_operator
              [ASTNode (k + 2) NT_constant b TT_constant [],
               ASTNode (k + 3) NT_constant c TT_constant []]], k + 5)"
    by (simp add: parseExpressionRecursive_def t1 r)
next
  show "returns (\<lambda>fuel. parseExpression fuel nodeIdCounter ''2+3*4'')
     (ASTNode 5 NT_binary_op ''+'' TT_operator
        [ASTNode 1 NT_constant ''2'' TT_constant [],
         ASTNode 4 NT_binary_op ''*'' TT_operator
           [ASTNode 2 NT_constant ''3'' TT_constant [],
            ASTNode 3 NT_constant ''4'' TT_constant []]], 5)"
    unfolding returns_def by (rule exI[of _ 8]) code_simp
  show "returns (\<lambda>fuel. parseExpression fuel nodeIdCounter ''(1+2)*3'')
     (ASTNode 5 NT_binary_op ''*'' TT_operator
        [ASTNode 3 NT_binary_op ''+'' TT_operator
           [ASTNode 1 NT_constant ''1'' TT_constant [],
            ASTNode 2 NT_constant ''2'' TT_constant []],
         ASTNode 4 NT_constant ''3'' TT_constant []], 5)"
    unfolding returns_def by (rule exI[of _ 8]) code_simp
qed code_simp+

theorem C3_precedence_witness:
  "isNumber ''10'' \<and> isNumber ''2.5'' \<and> isNumber ''4''
   \<and> ''-'' \<in> {''+'', ''-''} \<and> ''/'' \<in> {''*'', ''/''}
   \<and> returns (\<lambda>fuel. parseExpression fuel 0 ''10-2.5/4'')
        (ASTNode 5 NT_binary_op ''-'' TT_operator
           [ASTNode 1 NT_constant ''10'' TT_constant [],
            ASTNode 4 NT_binary_op ''/'' TT_operator
              [ASTNode 2 NT_constant ''2.5'' TT_constant [],
               ASTNode 3 NT_constant ''4'' TT_constant []]], 5)
   \<and> returns (\<lambda>fuel. parseExpression fuel 0 ''(10-2.5)/4'')
        (ASTNode 5 NT_binary_op ''/'' TT_operator
           [ASTNode 3 NT_binary_op ''-'' TT_operator
              [ASTNode 1 NT_constant ''10'' TT_constant [],
               ASTNode 2 NT_constant ''2.5'' TT_constant []],
            ASTNode 4 NT_constant ''4'' TT_constant []], 5)
   \<and> parseExpressionRecursive ''10/2.5-4'' 0 =
        (ASTNode 5 NT_binary_op ''-'' TT_operator
           [ASTNode 3 NT_binary_op ''/'' TT_operator
              [ASTNode 1 NT_constant ''10'' TT_constant [],
               ASTNode 2 NT_constant ''2.5'' TT_constant []],
            ASTNode 4 NT_constant ''4'' TT_constant []], 5)"
proof -
  have h: "isNumber ''10'' \<and> isNumber ''2.5'' \<and> isNumber ''4''
   \<and> ''-'' \<in> {''+'', ''-''} \<and> ''/'' \<in> {''*'', ''/''}"
    by code_simp
  with C3_precedence[of "''10''" "''2.5''" "''4''" "''-''" "''/''" 0 0] show ?thesis by simp
qed


section \<open>The argument loop of the expression dialect\<close>

lemma stuck_parsePrimary:
  assumes "peek tokens index = Some t" and "stuck_token t"
  shows "tokens_parsePrimary fuel tokens index c = None
         \<or> tokens_parsePrimary fuel tokens index c = Some (None, index, c)"
  using assms by (cases fuel) (auto simp: stuck_token_def truthy_def peek_def split: if_splits)

lemma stuck_parseMulDiv_while:
  assumes "peek tokens index = Some t" and "stuck_token t"
  shows "tokens_parseMulDiv_while fuel tokens None index c = None
         \<or> tokens_parseMulDiv_while fuel tokens None index c = Some (None, index, c)"
  using assms by (cases fuel) (auto simp: stuck_token_def)

lemma stuck_parseMulDiv:
  assumes "peek tokens index = Some t" and "stuck_token t"
  shows "tokens_parseMulDiv fuel tokens index c = None
         \<or> tokens_parseMulDiv fuel tokens index c = Some (None, index, c)"
proof (cases fuel)
  case 0
  then show ?thesis by simp
next
  case (Suc n)
  from stuck_parsePrimary[OF assms, of n c] stuck_parseMulDiv_while[OF assms, of n c] Suc
  show ?thesis by auto
qed

lemma stuck_parseAddSub_while:
  assumes "peek tokens index = Some t" and "stuck_token t"
  shows "tokens_parseAddSub_while fuel tokens None index c = None
         \<or> tokens_parseAddSub_while fuel tokens None index c = Some (None, index, c)"
  using assms by (cases fuel) (auto simp: stuck_token_def)

lemma stuck_parseAddSub:
  assumes "peek tokens index = Some t" and "stuck_token t"
  shows "tokens_parseAddSub fuel tokens index c = None
         \<or> tokens_parseAddSub fuel tokens index c = Some (None, index, c)"
proof (cases fuel)
  case 0
  then show ?thesis by simp
next
  case (Suc n)
  from stuck_parseMulDiv[OF assms, of n c] stuck_parseAddSub_while[OF assms, of n c] Suc
  show ?thesis by auto
qed

lemma stuck_parsePrimary_while:
  assumes "peek tokens index = Some t" and "stuck_token t"
  shows "tokens_parsePrimary_while fuel tokens args index c = None"
proof (induct fuel)
  case 0
  show ?case by simp
next
  case (Suc n)
  from assms have g: "truthy (peek tokens index) \<and> peek tokens index \<noteq> Some '')''"
    and k: "peek tokens index \<noteq> Some '',''"
    by (auto simp: stuck_token_def truthy_def)
  from stuck_parseAddSub[OF assms, of n c] Suc g k show ?case by auto
qed

lemma stuck_call_parsePrimary:
  assumes "peek tokens index = Some f" and "isIdentifier f" and "\<not> isNumber f"
    and "peek tokens (Suc index) = Some ''(''"
    and "peek tokens (Suc (Suc index)) = Some t" and "stuck_token t"
  shows "tokens_parsePrimary fuel tokens index c = None"
proof (cases fuel)
  case 0
  then show ?thesis by simp
next
  case (Suc n)
  from assms(1,4) have i: "consume tokens index = Suc index"
    "consume tokens (Suc index) = Suc (Suc index)"
    by (auto simp: peek_def consume_def split: if_splits)
  from assms(1,2) have t: "truthy (peek tokens index)" "tokens ! index = f" "f \<noteq> ''(''"
    by (auto simp: truthy_def peek_def isIdentifier_def isLetter_def split: if_splits)
  from stuck_parsePrimary_while[OF assms(5,6), of n "[]" c] Suc i t assms(2,3,4)
  show ?thesis by simp
qed

lemma f123_tokens: "tokenizeExpression ''f(1,2,3)'' = [''f'', ''('', ''1,2,3'', '')'']"
  by code_simp

lemma f123_stuck: "stuck_token ''1,2,3''"
  by code_simp

lemma f123_parseAddSub:
  "tokens_parseAddSub fuel [''f'', ''('', ''1,2,3'', '')''] 0 c = None"
proof -
  have p: "tokens_parsePrimary n [''f'', ''('', ''1,2,3'', '')''] 0 c = None" for n
    by (rule stuck_call_parsePrimary[where f = "''f''" and t = "''1,2,3''"])
       (simp_all add: peek_def f123_stuck, code_simp+)
  have m: "tokens_parseMulDiv n [''f'', ''('', ''1,2,3'', '')''] 0 c = None" for n
    by (cases n) (simp_all add: p)
  show ?thesis by (cases fuel) (simp_all add: m)
qed

lemma f123_parseExpression: "parseExpression fuel k ''f(1,2,3)'' = None"
  by (simp add: parseExpression_def parseExpressionTokens_def f123_tokens f123_parseAddSub)

lemma f123_parseCode: "parseCode fuel k ''f(1,2,3)'' ''expression'' = None"
  by (simp add: parseCode_def f123_parseExpression)

text \<open>
  Claim C1 says that \<^verbatim>\<open>parseExpression\<close> and \<^verbatim>\<open>parseCode\<close> terminate and return a node
  on every input. On the input \<^verbatim>\<open>f(1,2,3)\<close> the tokenizer gives the token \<^verbatim>\<open>1,2,3\<close>; the
  argument loop of \<^verbatim>\<open>parsePrimary\<close> gets \<^verbatim>\<open>null\<close> for it, consumes nothing and tests the
  same token again: \<^verbatim>\<open>parseExpression\<close> and \<^verbatim>\<open>parseCode\<close> with the dialect
  \<^verbatim>\<open>expression\<close> return for no amount of fuel.
\<close>

theorem C1_expression_dialect_diverges:
  "diverges (\<lambda>fuel. parseExpression fuel nodeIdCounter ''f(1,2,3)'')
   \<and> diverges (\<lambda>fuel. parseCode fuel nodeIdCounter ''f(1,2,3)'' ''expression'')"
  by (simp add: diverges_def f123_parseExpression f123_parseCode)

text \<open>
  Claim C7 says that parsing \<^verbatim>\<open>f(1,2,3)\<close> gives a call node \<^verbatim>\<open>f\<close> with the three constant
  children 1, 2, 3. The tokenizer does not split at commas: the argument text is the one
  token \<^verbatim>\<open>1,2,3\<close>. \<^verbatim>\<open>parseExpression\<close> does not return on it, and the statement-level
  parser gives a call node with the single identifier child \<^verbatim>\<open>1,2,3\<close>. With white space
  around the commas the tree is the one the claim describes.
\<close>

theorem C7_call_arguments:
  "tokenizeExpression ''f(1,2,3)'' = [''f'', ''('', ''1,2,3'', '')'']
   \<and> diverges (\<lambda>fuel. parseExpression fuel nodeIdCounter ''f(1,2,3)'')
   \<and> fst (parseExpressionRecursive ''f(1,2,3)'' 0) =
       ASTNode 1 NT_call_expression ''f'' TT_identifier
         [ASTNode 2 NT_identifier ''1,2,3'' TT_identifier []]
   \<and> returns (\<lambda>fuel. parseExpression fuel nodeIdCounter ''f(1 , 2 , 3)'')
       (ASTNode 4 NT_call_expression ''f'' TT_identifier
          [ASTNode 1 NT_constant ''1'' TT_constant [],
           ASTNode 2 NT_constant ''2'' TT_constant [],
           ASTNode 3 NT_constant ''3'' TT_constant []], 4)"
proof (intro conjI)
  show "diverges (\<lambda>fuel. parseExpression fuel nodeIdCounter ''f(1,2,3)'')"
    by (simp add: diverges_def f123_parseExpression)
  show "returns (\<lambda>fuel. parseExpression fuel nodeIdCounter ''f(1 , 2 , 3)'')
       (ASTNode 4 NT_call_expression ''f'' TT_identifier
          [ASTNode 1 NT_constant ''1'' TT_constant [],
           ASTNode 2 NT_constant ''2'' TT_constant [],
           ASTNode 3 NT_constant ''3'' TT_constant []], 4)"
    unfolding returns_def by (rule exI[of _ 12]) code_simp
qed code_simp+

section \<open>Empty token stream and fallback\<close>

lemma parseExpressionRecursive_empty:
  "tokenizeExpression input = [] \<Longrightarrow>
   parseExpressionRecursive input c = (ASTNode (Suc c) NT_identifier [] TT_identifier [], Suc c)"
  by (simp add: parseExpressionRecursive_def parser_simps peek_def truthy_def createNode_eq)

text \<open>
  Claim C8. When the token stream is empty, the statement-level expression parser
  (\<^verbatim>\<open>parsePrimary\<close> of \<^verbatim>\<open>parseExpressionRecursive\<close>) gives a leaf of kind identifier with
  the empty lexeme. When the grammar of the expression dialect produces no node
  (\<^verbatim>\<open>parseExpressionTokens\<close> returns \<^verbatim>\<open>null\<close>), \<^verbatim>\<open>parseExpression\<close> returns a leaf that
  holds the raw input text with the category constant (its kind is \<^verbatim>\<open>expression\<close>). In
  both cases the caller gets a node: the results are of type \<open>ASTNode\<close>, not an option.
\<close>

theorem C8_empty_tokens_and_fallback:
  "(tokenizeExpression input = [] \<longrightarrow>
      parseExpressionRecursive input c = (ASTNode (Suc c) NT_identifier [] TT_identifier [], Suc c))
   \<and> (returns (\<lambda>fuel. parseExpressionTokens fuel (tokenizeExpression input) 0) (None, c1) \<longrightarrow>
      returns (\<lambda>fuel. parseExpression fuel nodeIdCounter input)
        (ASTNode (Suc c1) NT_expression input TT_constant [], Suc c1))"
proof (intro conjI impI)
  assume "tokenizeExpression input = []"
  then show "parseExpressionRecursive input c
             = (ASTNode (Suc c) NT_identifier [] TT_identifier [], Suc c)"
    by (rule parseExpressionRecursive_empty)
next
  assume "returns (\<lambda>fuel. parseExpressionTokens fuel (tokenizeExpression input) 0) (None, c1)"
  then obtain fuel where
    "parseExpressionTokens fuel (tokenizeExpression input) 0 = Some (None, c1)"
    by (auto simp: returns_def)
  then have "parseExpression fuel nodeIdCounter input
             = Some (ASTNode (Suc c1) NT_expression input TT_constant [], Suc c1)"
    by (simp add: parseExpression_def createNode_eq)
  then show "returns (\<lambda>fuel. parseExpression fuel nodeIdCounter input)
               (ASTNode (Suc c1) NT_expression input TT_constant [], Suc c1)"
    unfolding returns_def by (rule exI)
qed

theorem C8_empty_tokens_and_fallback_witness:
  "tokenizeExpression [] = []
   \<and> parseExpressionRecursive [] 0 = (ASTNode 1 NT_identifier [] TT_identifier [], 1)
   \<and> returns (\<lambda>fuel. parseExpressionTokens fuel (tokenizeExpression []) 0) (None, 0)
   \<and> returns (\<lambda>fuel. parseExpression fuel 7 [])
        (ASTNode 1 NT_expression [] TT_constant [], 1)"
proof -
  have t: "tokenizeExpression [] = []" by code_simp
  have r: "returns (\<lambda>fuel. parseExpressionTokens fuel (tokenizeExpression []) 0) (None, 0)"
    unfolding returns_def by (rule exI[of _ 3]) code_simp
  from C8_empty_tokens_and_fallback[of "[]" 0 0 7] t r show ?thesis by simp
qed

section \<open>Variable declarations\<close>

lemma declKeywords_toLowerCase: "w \<in> set declKeywords \<Longrightarrow> toLowerCase w = w"
  by (auto simp: declKeywords_def) code_simp+

lemma parseVariableDeclaration_type:
  "node_type (fst (parseVariableDeclaration statement language c)) = NT_variable_declaration"
  by (simp add: parseVariableDeclaration_def Let_def createNode_eq split: prod.splits)

text \<open>
  Claim C4. For the line \<^verbatim>\<open>int x = 5;\<close> the statement classifier gives a
  variable-declaration node whose children are the keyword \<^verbatim>\<open>int\<close>, the identifier \<^verbatim>\<open>x\<close>
  and an assignment node whose second child is the constant 5. Every statement whose
  first white-space-delimited word is one of \<^verbatim>\<open>int float double char void bool string\<close>
  is classified as a variable declaration.
\<close>

theorem C4_variable_declaration:
  "parseStatement ''int x = 5;'' language c =
     (ASTNode (Suc c) NT_variable_declaration ''int x'' TT_keyword
        [ASTNode (Suc (Suc c)) NT_keyword ''int'' TT_keyword [],
         ASTNode (Suc (Suc (Suc c))) NT_identifier ''x'' TT_identifier [],
         ASTNode (Suc (Suc (Suc (Suc c)))) NT_assignment ''='' TT_operator
           [ASTNode (Suc (Suc (Suc (Suc (Suc c))))) NT_identifier ''x'' TT_identifier [],
            ASTNode (Suc (Suc (Suc (Suc (Suc (Suc c)))))) NT_constant ''5'' TT_constant []]],
      Suc (Suc (Suc (Suc (Suc (Suc c))))))
   \<and> (hd (split_ws (trim statement)) \<in> set declKeywords \<longrightarrow>
        node_type (fst (parseStatement statement language c)) = NT_variable_declaration)"
proof
  show "parseStatement ''int x = 5;'' language c =
     (ASTNode (Suc c) NT_variable_declaration ''int x'' TT_keyword
        [ASTNode (Suc (Suc c)) NT_keyword ''int'' TT_keyword [],
         ASTNode (Suc (Suc (Suc c))) NT_identifier ''x'' TT_identifier [],
         ASTNode (Suc (Suc (Suc (Suc c)))) NT_assignment ''='' TT_operator
           [ASTNode (Suc (Suc (Suc (Suc (Suc c))))) NT_identifier ''x'' TT_identifier [],
            ASTNode (Suc (Suc (Suc (Suc (Suc (Suc c)))))) NT_constant ''5'' TT_constant []]],
      Suc (Suc (Suc (Suc (Suc (Suc c))))))"
    by code_simp
  show "hd (split_ws (trim statement)) \<in> set declKeywords \<longrightarrow>
        node_type (fst (parseStatement statement language c)) = NT_variable_declaration"
    by (simp add: parseStatement_def isVariableDeclaration_def Let_def
                  declKeywords_toLowerCase parseVariableDeclaration_type)
qed

theorem C4_variable_declaration_witness:
  "hd (split_ws (trim ''float ratio'')) \<in> set declKeywords
   \<and> node_type (fst (parseStatement ''float ratio'' ''c'' 0)) = NT_variable_declaration"
proof -
  have h: "hd (split_ws (trim ''float ratio'')) \<in> set declKeywords" by code_simp
  with C4_variable_declaration[of "''c''" 0 "''float ratio''"] show ?thesis by simp
qed

section \<open>The root of the tree\<close>

lemma parseCode_lines_total:
  "language \<noteq> ''expression'' \<Longrightarrow> \<exists>r. parseCode fuel k input language = Some r"
  by (simp add: parseCode_def Let_def split: prod.splits)

lemma parseCode_root_type:
  "parseCode fuel k input language = Some (t, c') \<Longrightarrow> node_type t = NT_program"
  by (auto simp: parseCode_def Let_def createNode_eq split: prod.splits option.splits if_splits)

lemma max12_tokens:
  "tokenizeExpression ''max(1, 2)'' = [''max'', ''('', ''1,'', ''2'', '')'']"
  by code_simp

lemma max12_stuck: "stuck_token ''1,''"
  by code_simp

lemma max12_parseAddSub:
  "tokens_parseAddSub fuel [''max'', ''('', ''1,'', ''2'', '')''] 0 c = None"
proof -
  have p: "tokens_parsePrimary n [''max'', ''('', ''1,'', ''2'', '')''] 0 c = None" for n
    by (rule stuck_call_parsePrimary[where f = "''max''" and t = "''1,''"])
       (simp_all add: peek_def max12_stuck, code_simp+)
  have m: "tokens_parseMulDiv n [''max'', ''('', ''1,'', ''2'', '')''] 0 c = None" for n
    by (cases n) (simp_all add: p)
  show ?thesis by (cases fuel) (simp_all add: m)
qed

lemma max12_parseCode: "parseCode fuel k ''max(1, 2)'' ''expression'' = None"
  by (simp add: parseCode_def parseExpression_def parseExpressionTokens_def
        max12_tokens max12_parseAddSub)

text \<open>
  Claim C2 says that \<^verbatim>\<open>parseCode\<close> returns a tree with a root of kind \<^verbatim>\<open>program\<close> for
  every input and every dialect, the expression dialect included. With the dialect
  \<^verbatim>\<open>expression\<close> and the input \<^verbatim>\<open>max(1, 2)\<close> it returns no tree: the tokenizer gives the
  tokens \<^verbatim>\<open>max\<close>, \<^verbatim>\<open>(\<close>, \<^verbatim>\<open>1,\<close>, \<^verbatim>\<open>2\<close>, \<^verbatim>\<open>)\<close>, and the argument loop of \<^verbatim>\<open>parsePrimary\<close>
  makes no progress on the token \<^verbatim>\<open>1,\<close> (the loop of claim C1). Where \<^verbatim>\<open>parseCode\<close>
  returns, the root is of kind \<^verbatim>\<open>program\<close> (\<open>parseCode_root_type\<close>), and with every other
  dialect it returns on every input (\<open>parseCode_lines_total\<close>).
\<close>

theorem C2_expression_dialect_no_tree:
  "tokenizeExpression ''max(1, 2)'' = [''max'', ''('', ''1,'', ''2'', '')'']
   \<and> diverges (\<lambda>fuel. parseCode fuel nodeIdCounter ''max(1, 2)'' ''expression'')
   \<and> \<not> (\<exists>t c'. returns (\<lambda>fuel. parseCode fuel nodeIdCounter ''max(1, 2)'' ''expression'') (t, c'))"
  by (simp add: diverges_def returns_def max12_parseCode max12_tokens)

section \<open>The order of the children of the root\<close>

lemma parseCode_for_buckets:
  "parseCode_for lines language D S F c =
     (case parseCode_parsed lines language c of
        (parsed, c') \<Rightarrow>
          ((D @ filter isDeclarationNode parsed, S @ filter isOtherNode parsed,
            F @ filter isFunctionNode parsed), c'))"
  by (induct lines arbitrary: D S F c)
     (auto simp: Let_def isFunctionNode_def isDeclarationNode_def isOtherNode_def
           split: prod.splits)

text \<open>
  Claim C5. For a line-oriented dialect the children of the program root are: the
  function-declaration nodes in line order; then one \<^verbatim>\<open>declarations\<close> node wrapping the
  variable declarations in line order, present exactly when there is such a declaration;
  then one \<^verbatim>\<open>statements\<close> node wrapping all other statements in line order, present
  exactly when there is one. A group node therefore never has an empty list of children.
\<close>

theorem C5_root_children_order:
  assumes "language \<noteq> ''expression''"
  shows "\<exists>root c' i j.
     parseCode fuel nodeIdCounter input language = Some (root, c') \<and>
     (let parsed = fst (parseCode_parsed
                          (filter (\<lambda>line. trim line \<noteq> []) (split input (CHR 0x0A))) language 1);
          functions = filter isFunctionNode parsed;
          declarations = filter isDeclarationNode parsed;
          statements = filter isOtherNode parsed
      in children root =
           functions
           @ (if declarations = [] then []
              else [ASTNode i NT_declarations ''Declarations'' TT_keyword declarations])
           @ (if statements = [] then []
              else [ASTNode j NT_statements ''Statements'' TT_keyword statements]))"
  using assms
  by (auto simp: parseCode_def Let_def createNode_eq parseCode_for_buckets
           split: prod.splits)

theorem C5_root_children_order_witness:
  "''python'' \<noteq> ''expression'' \<and>
   (\<exists>root c'. parseCode 0 0 (''x = 1'' @ [CHR 0x0A] @ ''float y'' @ [CHR 0x0A] @ ''add(int a)'')
                  ''python'' = Some (root, c')
      \<and> map node_type (children root) = [NT_function_declaration, NT_declarations, NT_statements]
      \<and> map (map node_value \<circ> children) (children root)
          = [[''add'', ''Parameters''], [''float y''], [''='']])"
proof -
  have n: "''python'' \<noteq> ''expression''" by simp
  have p: "fst (parseCode_parsed
             (filter (\<lambda>line. trim line \<noteq> [])
                (split (''x = 1'' @ [CHR 0x0A] @ ''float y'' @ [CHR 0x0A] @ ''add(int a)'') (CHR 0x0A)))
             ''python'' 1)
           = [ASTNode 2 NT_assignment ''='' TT_operator
                [ASTNode 3 NT_identifier ''x'' TT_identifier [],
                 ASTNode 4 NT_constant ''1'' TT_constant []],
              ASTNode 5 NT_variable_declaration ''float y'' TT_keyword
                [ASTNode 6 NT_keyword ''float'' TT_keyword [],
                 ASTNode 7 NT_identifier ''y'' TT_identifier []],
              ASTNode 8 NT_function_declaration ''Function: add'' TT_keyword
                [ASTNode 9 NT_identifier ''add'' TT_identifier [],
                 ASTNode 10 NT_parameter_list ''Parameters'' TT_keyword
                   [ASTNode 11 NT_declaration ''int a'' TT_identifier
                      [ASTNode 12 NT_keyword ''int'' TT_keyword [],
                       ASTNode 13 NT_identifier ''a'' TT_identifier []]]]]"
    by code_simp
  from C5_root_children_order[OF n, of 0 0
         "''x = 1'' @ [CHR 0x0A] @ ''float y'' @ [CHR 0x0A] @ ''add(int a)''"]
  show ?thesis
    unfolding p by (auto simp: Let_def isFunctionNode_def isDeclarationNode_def isOtherNode_def)
qed

section \<open>Independence of the line-oriented dialect\<close>

lemma parseStatement_language: "parseStatement s l1 c = parseStatement s l2 c"
  by (simp add: parseStatement_def isVariableDeclaration_def parseVariableDeclaration_def
                parseFunctionDeclaration_def)

lemma parseCode_for_language:
  "parseCode_for lines l1 D S F c = parseCode_for lines l2 D S F c"
  by (induct lines arbitrary: D S F c)
     (simp_all add: parseStatement_language[of _ l1 _ l2] Let_def split: prod.splits)

lemma parseCode_language:
  assumes "l1 \<noteq> ''expression''" and "l2 \<noteq> ''expression''"
  shows "\<exists>t1 t2 c. parseCode fuel1 k1 text l1 = Some (t1, c)
           \<and> parseCode fuel2 k2 text l2 = Some (t2, c)
           \<and> node_id t2 = node_id t1 \<and> node_type t2 = node_type t1
           \<and> tokenType t2 = tokenType t1 \<and> children t2 = children t1
           \<and> node_value t1 = toUpperCase l1 @ '' Program''
           \<and> node_value t2 = toUpperCase l2 @ '' Program''"
  using assms
  by (simp add: parseCode_def Let_def createNode_eq parseCode_for_language[of _ l1 _ _ _ _ l2]
           split: prod.splits)

text \<open>
  Claim C10. For every text and any two of the line-oriented dialects \<^verbatim>\<open>c\<close>, \<^verbatim>\<open>python\<close>,
  \<^verbatim>\<open>java\<close>, \<^verbatim>\<open>parseCode\<close> returns for both, with the same final counter, and the two
  roots have the same id, kind, category and children: they differ at most in the
  lexeme, which is the upper-case dialect name followed by \<^verbatim>\<open> Program\<close>.
\<close>

theorem C10_dialect_independence:
  assumes "d1 \<in> {''c'', ''python'', ''java''}" and "d2 \<in> {''c'', ''python'', ''java''}"
  shows "\<exists>t1 t2 c. parseCode fuel1 k1 text d1 = Some (t1, c)
           \<and> parseCode fuel2 k2 text d2 = Some (t2, c)
           \<and> node_id t2 = node_id t1 \<and> node_type t2 = node_type t1
           \<and> tokenType t2 = tokenType t1 \<and> children t2 = children t1
           \<and> node_value t1 = toUpperCase d1 @ '' Program''
           \<and> node_value t2 = toUpperCase d2 @ '' Program''"
proof -
  from assms have "d1 \<noteq> ''expression''" and "d2 \<noteq> ''expression''" by auto
  then show ?thesis by (rule parseCode_language)
qed

theorem C10_dialect_independence_witness:
  "''c'' \<in> {''c'', ''python'', ''java''} \<and> ''python'' \<in> {''c'', ''python'', ''java''}
   \<and> (\<exists>t1 t2 c. parseCode 0 0 ''int x = 5;'' ''c'' = Some (t1, c)
           \<and> parseCode 0 0 ''int x = 5;'' ''python'' = Some (t2, c)
           \<and> node_id t2 = node_id t1 \<and> node_type t2 = node_type t1
           \<and> tokenType t2 = tokenType t1 \<and> children t2 = children t1
           \<and> node_value t1 = ''C Program''
           \<and> node_value t2 = ''PYTHON Program'')"
proof -
  have a: "''c'' \<in> {''c'', ''python'', ''java''}" and b: "''python'' \<in> {''c'', ''python'', ''java''}"
    by simp_all
  have u: "toUpperCase ''c'' @ '' Program'' = ''C Program''"
          "toUpperCase ''python'' @ '' Program'' = ''PYTHON Program''"
    by code_simp+
  from C10_dialect_independence[OF a b, of 0 0 "''int x = 5;''" 0 0] a b show ?thesis
    by (simp only: u)
qed

section \<open>Ids and operator arities\<close>

lemma ids_ASTNode [simp]: "ids (ASTNode i ty v tt ch) = i # concat (map ids ch)"
  unfolding ids_def by (simp add: map_concat comp_def)

lemma nodes_push_child:
  "nodes (push_child n x) = push_child n x # concat (map nodes (children n)) @ nodes x"
  by (cases n) (simp add: push_child_def)

lemma ids_push_child: "ids (push_child n x) = ids n @ ids x"
  by (cases n) (simp add: push_child_def)

lemma nodes_tl: "set (nodes n) = insert n (\<Union>m \<in> set (children n). set (nodes m))"
  by (cases n) auto

lemma good_leaf:
  "A (ASTNode (Suc c) ty v tt []) \<Longrightarrow> good A c (Suc c) (ASTNode (Suc c) ty v tt [])"
  by (simp add: good_def)

lemma good_widen: "good A lo hi n \<Longrightarrow> lo' \<le> lo \<Longrightarrow> hi \<le> hi' \<Longrightarrow> good A lo' hi' n"
  by (fastforce simp: good_def)

lemma good_le: "good A lo hi n \<Longrightarrow> lo \<le> hi"
  by (simp add: good_def)

lemma good_binary:
  assumes "good A lo mid l" and "good A mid hi r" and "A (ASTNode (Suc hi) ty v tt [l, r])"
  shows "good A lo (Suc hi) (ASTNode (Suc hi) ty v tt [l, r])"
  using assms by (fastforce simp: good_def)

lemma good_unary:
  assumes "good A lo hi x" and "A (ASTNode (Suc hi) ty v tt [x])"
  shows "good A lo (Suc hi) (ASTNode (Suc hi) ty v tt [x])"
  using assms by (fastforce simp: good_def)

lemma good_push:
  assumes "good A lo mid n" and "good A mid hi x" and "A (push_child n x)"
  shows "good A lo hi (push_child n x)"
  using assms
  by (cases n) (fastforce simp: good_def nodes_push_child ids_push_child)



lemma parser_good:
  shows "good arity_ok c (snd (snd (parseLogicalOr tokens index c))) (fst (parseLogicalOr tokens index c))"
    and "\<And>c0. good arity_ok c0 c left \<Longrightarrow>
       good arity_ok c0 (snd (snd (parseLogicalOr_while tokens left index c))) (fst (parseLogicalOr_while tokens left index c))"
    and "good arity_ok c (snd (snd (parseLogicalAnd tokens index c))) (fst (parseLogicalAnd tokens index c))"
    and "\<And>c0. good arity_ok c0 c left \<Longrightarrow>
       good arity_ok c0 (snd (snd (parseLogicalAnd_while tokens left index c))) (fst (parseLogicalAnd_while tokens left index c))"
    and "good arity_ok c (snd (snd (parseEquality tokens index c))) (fst (parseEquality tokens index c))"
    and "\<And>c0. good arity_ok c0 c left \<Longrightarrow>
       good arity_ok c0 (snd (snd (parseEquality_while tokens left index c))) (fst (parseEquality_while tokens left index c))"
    and "good arity_ok c (snd (snd (parseComparison tokens index c))) (fst (parseComparison tokens index c))"
    and "\<And>c0. good arity_ok c0 c left \<Longrightarrow>
       good arity_ok c0 (snd (snd (parseComparison_while tokens left index c))) (fst (parseComparison_while tokens left index c))"
    and "good arity_ok c (snd (snd (parseAddSub tokens index c))) (fst (parseAddSub tokens index c))"
    and "\<And>c0. good arity_ok c0 c left \<Longrightarrow>
       good arity_ok c0 (snd (snd (parseAddSub_while tokens left index c))) (fst (parseAddSub_while tokens left index c))"
    and "good arity_ok c (snd (snd (parseMulDiv tokens index c))) (fst (parseMulDiv tokens index c))"
    and "\<And>c0. good arity_ok c0 c left \<Longrightarrow>
       good arity_ok c0 (snd (snd (parseMulDiv_while tokens left index c))) (fst (parseMulDiv_while tokens left index c))"
    and "good arity_ok c (snd (snd (parseUnary tokens index c))) (fst (parseUnary tokens index c))"
    and "good arity_ok c (snd (snd (parsePrimary tokens index c))) (fst (parsePrimary tokens index c))"
    and "\<And>c0. good arity_ok c0 c callNode \<Longrightarrow> node_type callNode = NT_call_expression \<Longrightarrow>
       good arity_ok c0 (snd (snd (parsePrimary_while tokens callNode index c)))
         (fst (parsePrimary_while tokens callNode index c))
       \<and> node_type (fst (parsePrimary_while tokens callNode index c)) = NT_call_expression"
proof (induct tokens index c
           and tokens left index c
           and tokens index c
           and tokens left index c
           and tokens index c
           and tokens left index c
           and tokens index c
           and tokens left index c
           and tokens index c
           and tokens left index c
           and tokens index c
           and tokens left index c
           and tokens index c
           and tokens index c
           and tokens callNode index c
       rule: parseLogicalOr_parseLogicalOr_while_parseLogicalAnd_parseLogicalAnd_while_parseEquality_parseEquality_while_parseComparison_parseComparison_while_parseAddSub_parseAddSub_while_parseMulDiv_parseMulDiv_while_parseUnary_parsePrimary_parsePrimary_while.induct)
  case (1 tokens index c)
  obtain left i1 c1 where r: "parseLogicalAnd tokens index c = (left, i1, c1)"
    by (metis prod_cases3)
  from 1(1) r have "good arity_ok c c1 left" by simp
  from 1(2)[of left "(i1, c1)" i1 c1 c] r this show ?case
    by (simp add: parseLogicalOr.simps[of tokens index c])
next
  case (2 tokens left index c c0)
  show ?case
  proof (cases "peek tokens index = Some ''||''")
    case True
    obtain right i1 c1 where r: "parseLogicalAnd tokens (consume tokens index) c = (right, i1, c1)"
      by (metis prod_cases3)
    from 2(1)[OF True] r have "good arity_ok c c1 right" by simp
    with 2(3) have "good arity_ok c0 (Suc c1)
        (ASTNode (Suc c1) NT_binary_op (tokens ! index) TT_operator [left, right])"
      by (rule good_binary) (simp add: arity_ok_def)
    with 2(2)[OF True, of right "(i1, c1)" i1 c1
           "ASTNode (Suc c1) NT_binary_op (tokens ! index) TT_operator []" "Suc c1" c0] r True
    show ?thesis
      by (simp add: parseLogicalOr_while.simps[of tokens left index c] createNode_eq push_child_eq)
  next
    case False
    with 2(3) show ?thesis by (simp add: parseLogicalOr_while.simps[of tokens left index c])
  qed
next
  case (3 tokens index c)
  obtain left i1 c1 where r: "parseEquality tokens index c = (left, i1, c1)"
    by (metis prod_cases3)
  from 3(1) r have "good arity_ok c c1 left" by simp
  from 3(2)[of left "(i1, c1)" i1 c1 c] r this show ?case
    by (simp add: parseLogicalAnd.simps[of tokens index c])
next
  case (4 tokens left index c c0)
  show ?case
  proof (cases "peek tokens index = Some ''&&''")
    case True
    obtain right i1 c1 where r: "parseEquality tokens (consume tokens index) c = (right, i1, c1)"
      by (metis prod_cases3)
    from 4(1)[OF True] r have "good arity_ok c c1 right" by simp
    with 4(3) have "good arity_ok c0 (Suc c1)
        (ASTNode (Suc c1) NT_binary_op (tokens ! index) TT_operator [left, right])"
      by (rule good_binary) (simp add: arity_ok_def)
    with 4(2)[OF True, of right "(i1, c1)" i1 c1
           "ASTNode (Suc c1) NT_binary_op (tokens ! index) TT_operator []" "Suc c1" c0] r True
    show ?thesis
      by (simp add: parseLogicalAnd_while.simps[of tokens left index c] createNode_eq push_child_eq)
  next
    case False
    with 4(3) show ?thesis by (simp add: parseLogicalAnd_while.simps[of tokens left index c])
  qed
next
  case (5 tokens index c)
  obtain left i1 c1 where r: "parseComparison tokens index c = (left, i1, c1)"
    by (metis prod_cases3)
  from 5(1) r have "good arity_ok c c1 left" by simp
  from 5(2)[of left "(i1, c1)" i1 c1 c] r this show ?case
    by (simp add: parseEquality.simps[of tokens index c])
next
  case (6 tokens left index c c0)
  show ?case
  proof (cases "peek tokens index = Some ''=='' \<or> peek tokens index = Some ''!=''")
    case True
    obtain right i1 c1 where r: "parseComparison tokens (consume tokens index) c = (right, i1, c1)"
      by (metis prod_cases3)
    from 6(1)[OF True] r have "good arity_ok c c1 right" by simp
    with 6(3) have "good arity_ok c0 (Suc c1)
        (ASTNode (Suc c1) NT_binary_op (tokens ! index) TT_operator [left, right])"
      by (rule good_binary) (simp add: arity_ok_def)
    with 6(2)[OF True, of right "(i1, c1)" i1 c1
           "ASTNode (Suc c1) NT_binary_op (tokens ! index) TT_operator []" "Suc c1" c0] r True
    show ?thesis
      by (simp add: parseEquality_while.simps[of tokens left index c] createNode_eq push_child_eq)
  next
    case False
    with 6(3) show ?thesis by (simp add: parseEquality_while.simps[of tokens left index c])
  qed
next
  case (7 tokens index c)
  obtain left i1 c1 where r: "parseAddSub tokens index c = (left, i1, c1)"
    by (metis prod_cases3)
  from 7(1) r have "good arity_ok c c1 left" by simp
  from 7(2)[of left "(i1, c1)" i1 c1 c] r this show ?case
    by (simp add: parseComparison.simps[of tokens index c])
next
  case (8 tokens left index c c0)
  show ?case
  proof (cases "peek tokens index = Some ''<'' \<or> peek tokens index = Some ''>'' \<or> peek tokens index = Some ''<='' \<or> peek tokens index = Some ''>=''")
    case True
    obtain right i1 c1 where r: "parseAddSub tokens (consume tokens index) c = (right, i1, c1)"
      by (metis prod_cases3)
    from 8(1)[OF True] r have "good arity_ok c c1 right" by simp
    with 8(3) have "good arity_ok c0 (Suc c1)
        (ASTNode (Suc c1) NT_binary_op (tokens ! index) TT_operator [left, right])"
      by (rule good_binary) (simp add: arity_ok_def)
    with 8(2)[OF True, of right "(i1, c1)" i1 c1
           "ASTNode (Suc c1) NT_binary_op (tokens ! index) TT_operator []" "Suc c1" c0] r True
    show ?thesis
      by (simp add: parseComparison_while.simps[of tokens left index c] createNode_eq push_child_eq)
  next
    case False
    with 8(3) show ?thesis by (simp add: parseComparison_while.simps[of tokens left index c])
  qed
next
  case (9 tokens index c)
  obtain left i1 c1 where r: "parseMulDiv tokens index c = (left, i1, c1)"
    by (metis prod_cases3)
  from 9(1) r have "good arity_ok c c1 left" by simp
  from 9(2)[of left "(i1, c1)" i1 c1 c] r this show ?case
    by (simp add: parseAddSub.simps[of tokens index c])
next
  case (10 tokens left index c c0)
  show ?case
  proof (cases "peek tokens index = Some ''+'' \<or> peek tokens index = Some ''-''")
    case True
    obtain right i1 c1 where r: "parseMulDiv tokens (consume tokens index) c = (right, i1, c1)"
      by (metis prod_cases3)
    from 10(1)[OF True] r have "good arity_ok c c1 right" by simp
    with 10(3) have "good arity_ok c0 (Suc c1)
        (ASTNode (Suc c1) NT_binary_op (tokens ! index) TT_operator [left, right])"
      by (rule good_binary) (simp add: arity_ok_def)
    with 10(2)[OF True, of right "(i1, c1)" i1 c1
           "ASTNode (Suc c1) NT_binary_op (tokens ! index) TT_operator []" "Suc c1" c0] r True
    show ?thesis
      by (simp add: parseAddSub_while.simps[of tokens left index c] createNode_eq push_child_eq)
  next
    case False
    with 10(3) show ?thesis by (simp add: parseAddSub_while.simps[of tokens left index c])
  qed
next
  case (11 tokens index c)
  obtain left i1 c1 where r: "parseUnary tokens index c = (left, i1, c1)"
    by (metis prod_cases3)
  from 11(1) r have "good arity_ok c c1 left" by simp
  from 11(2)[of left "(i1, c1)" i1 c1 c] r this show ?case
    by (simp add: parseMulDiv.simps[of tokens index c])
next
  case (12 tokens left index c c0)
  show ?case
  proof (cases "peek tokens index = Some ''*'' \<or> peek tokens index = Some ''/'' \<or> peek tokens index = Some ''%''")
    case True
    obtain right i1 c1 where r: "parseUnary tokens (consume tokens index) c = (right, i1, c1)"
      by (metis prod_cases3)
    from 12(1)[OF True] r have "good arity_ok c c1 right" by simp
    with 12(3) have "good arity_ok c0 (Suc c1)
        (ASTNode (Suc c1) NT_binary_op (tokens ! index) TT_operator [left, right])"
      by (rule good_binary) (simp add: arity_ok_def)
    with 12(2)[OF True, of right "(i1, c1)" i1 c1
           "ASTNode (Suc c1) NT_binary_op (tokens ! index) TT_operator []" "Suc c1" c0] r True
    show ?thesis
      by (simp add: parseMulDiv_while.simps[of tokens left index c] createNode_eq push_child_eq)
  next
    case False
    with 12(3) show ?thesis by (simp add: parseMulDiv_while.simps[of tokens left index c])
  qed
next
  case (13 tokens index c)
  show ?case
  proof (cases "peek tokens index = Some ''-'' \<or> peek tokens index = Some ''!'' \<or> peek tokens index = Some ''++'' \<or> peek tokens index = Some ''--''")
    case True
    obtain operand i1 c1 where r: "parseUnary tokens (consume tokens index) c = (operand, i1, c1)"
      by (metis prod_cases3)
    from 13(1)[OF True] r have "good arity_ok c c1 operand" by simp
    then have "good arity_ok c (Suc c1)
        (ASTNode (Suc c1) NT_unary_op (tokens ! index) TT_operator [operand])"
      by (rule good_unary) (simp add: arity_ok_def)
    with r True show ?thesis
      by (simp add: parseUnary.simps[of tokens index c] createNode_eq push_child_eq)
  next
    case False
    with 13(2) show ?thesis by (simp add: parseUnary.simps[of tokens index c])
  qed
next
  case (14 tokens index c)
  have leaf: "good arity_ok c (Suc c) (ASTNode (Suc c) ty v tt [])"
    if "ty \<noteq> NT_binary_op" "ty \<noteq> NT_unary_op" for ty v tt
    using that by (intro good_leaf) (simp add: arity_ok_def)
  show ?case
  proof (cases "truthy (peek tokens index)")
    case False
    then show ?thesis by (simp add: parsePrimary.simps[of tokens index c] createNode_eq leaf)
  next
    case True
    show ?thesis
    proof (cases "tokens ! index = ''(''")
      case paren: True
      obtain expr i1 c1 where r: "parseLogicalOr tokens (consume tokens index) c = (expr, i1, c1)"
        by (metis prod_cases3)
      from 14(1) True paren r have "good arity_ok c c1 expr" by simp
      with True paren r show ?thesis by (simp add: parsePrimary.simps[of tokens index c])
    next
      case noparen: False
      show ?thesis
      proof (cases "\<not> isNumber (tokens ! index) \<and> \<not> isStringLiteral (tokens ! index)
                      \<and> isIdentifier (tokens ! index) \<and> peek tokens (consume tokens index) = Some ''(''")
        case call: True
        obtain callNode1 i1 c2 where r:
          "parsePrimary_while tokens (ASTNode (Suc c) NT_call_expression (tokens ! index) TT_identifier [])
             (consume tokens (consume tokens index)) (Suc c) = (callNode1, i1, c2)"
          by (metis prod_cases3)
        have "good arity_ok c (Suc c) (ASTNode (Suc c) NT_call_expression (tokens ! index) TT_identifier [])"
          by (simp add: leaf)
        with 14(2)[of "ASTNode (Suc c) NT_call_expression (tokens ! index) TT_identifier []" "Suc c" c]
             True noparen call r
        have "good arity_ok c c2 callNode1" by (simp add: createNode_eq)
        with True noparen call r show ?thesis
          by (simp add: parsePrimary.simps[of tokens index c] createNode_eq)
      next
        case False
        with True noparen show ?thesis
          by (auto simp: parsePrimary.simps[of tokens index c] createNode_eq leaf)
      qed
    qed
  qed
next
  case (15 tokens callNode index c c0)
  show ?case
  proof (cases "truthy (peek tokens index) \<and> peek tokens index \<noteq> Some '')''")
    case True
    obtain arg i1 c1 where r: "parseLogicalOr tokens index c = (arg, i1, c1)"
      by (metis prod_cases3)
    from 15(1)[OF True] r have "good arity_ok c c1 arg" by simp
    with 15(3) have "good arity_ok c0 c1 (push_child callNode arg)"
      by (rule good_push) (simp add: arity_ok_def 15(4))
    with 15(2)[OF True, of arg "(i1, c1)" i1 c1 c0] r 15(4) True
    show ?thesis by (simp add: parsePrimary_while.simps[of tokens callNode index c])
  next
    case False
    with 15(3,4) show ?thesis
      by (auto simp add: parsePrimary_while.simps[of tokens callNode index c])
  qed
qed

subsection \<open>Statements\<close>

lemma parseExpressionRecursive_good:
  "parseExpressionRecursive input c = (n, c') \<Longrightarrow> good arity_ok c c' n"
  using parser_good(1)[of c "tokenizeExpression input" 0]
  by (auto simp: parseExpressionRecursive_def split: prod.splits)

lemma good_parent1:
  assumes "good A (Suc lo) hi x" and "A (ASTNode (Suc lo) ty v tt [x])"
  shows "good A lo hi (ASTNode (Suc lo) ty v tt [x])"
  using assms by (fastforce simp: good_def)

lemma good_plain_leaf:
  "ty \<noteq> NT_binary_op \<Longrightarrow> ty \<noteq> NT_unary_op \<Longrightarrow>
   good arity_ok c (Suc c) (ASTNode (Suc c) ty v tt [])"
  by (rule good_leaf) (simp add: arity_ok_def)

lemma good_plain_push:
  assumes "good arity_ok lo mid n" and "good arity_ok mid hi x"
    and "node_type n \<noteq> NT_binary_op" and "node_type n \<noteq> NT_unary_op"
  shows "good arity_ok lo hi (push_child n x)"
  using assms(1,2) by (rule good_push) (simp add: arity_ok_def assms(3,4))

lemma parseIfStatement_good:
  "parseIfStatement statement c = (n, c') \<Longrightarrow> good arity_ok c c' n"
  by (auto simp: parseIfStatement_def Let_def createNode_eq push_child_eq good_plain_leaf
                 arity_ok_def
           split: prod.splits if_splits
           dest!: parseExpressionRecursive_good intro!: good_parent1)

lemma parseWhileStatement_good:
  "parseWhileStatement statement c = (n, c') \<Longrightarrow> good arity_ok c c' n"
  by (auto simp: parseWhileStatement_def Let_def createNode_eq push_child_eq good_plain_leaf
                 arity_ok_def
           split: prod.splits if_splits
           dest!: parseExpressionRecursive_good intro!: good_parent1)

lemma parseReturnStatement_good:
  "parseReturnStatement statement c = (n, c') \<Longrightarrow> good arity_ok c c' n"
  by (auto simp: parseReturnStatement_def Let_def createNode_eq push_child_eq good_plain_leaf
                 arity_ok_def
           split: prod.splits if_splits
           dest!: parseExpressionRecursive_good intro!: good_parent1)

lemma parseExpressionStatement_good:
  "parseExpressionStatement statement c = (n, c') \<Longrightarrow> good arity_ok c c' n"
  by (auto simp: parseExpressionStatement_def Let_def dest!: parseExpressionRecursive_good)

lemma parseAssignment_good:
  "parseAssignment statement c = (n, c') \<Longrightarrow> good arity_ok c c' n"
  by (auto simp: parseAssignment_def Let_def createNode_eq push_child_eq
           split: prod.splits if_splits dest!: parseExpressionRecursive_good)
     (auto simp: good_def arity_ok_def)

lemma parseVariableDeclaration_good:
  "parseVariableDeclaration statement language c = (n, c') \<Longrightarrow> good arity_ok c c' n"
  by (auto simp: parseVariableDeclaration_def Let_def createNode_eq push_child_eq
           split: prod.splits if_splits dest!: parseExpressionRecursive_good)
     (auto simp: good_def arity_ok_def)

lemma parseForStatement_part_good:
  assumes "parseForStatement_part label part forNode c = (n, c')"
    and "good arity_ok c0 c forNode" and "node_type forNode = NT_for_statement"
  shows "good arity_ok c0 c' n \<and> node_type n = NT_for_statement"
proof (cases "part = []")
  case True
  with assms show ?thesis by (simp add: parseForStatement_part_def)
next
  case False
  obtain exprNode c2 where r: "parseExpressionRecursive part (Suc c) = (exprNode, c2)"
    by (metis surj_pair)
  from parseExpressionRecursive_good[OF r]
  have "good arity_ok c c2 (ASTNode (Suc c) NT_statement label TT_keyword [exprNode])"
    by (rule good_parent1) (simp add: arity_ok_def)
  with assms(2) have "good arity_ok c0 c2
      (push_child forNode (ASTNode (Suc c) NT_statement label TT_keyword [exprNode]))"
    by (rule good_plain_push) (simp_all add: assms(3))
  with assms False r show ?thesis
    by (auto simp: parseForStatement_part_def createNode_eq push_child_eq)
qed

lemma parseForStatement_good:
  assumes "parseForStatement statement c = (n, c')"
  shows "good arity_ok c c' n"
proof -
  let ?forNode = "ASTNode (Suc c) NT_for_statement ''for'' TT_keyword []"
  have g: "good arity_ok c (Suc c) ?forNode" by (simp add: good_plain_leaf)
  show ?thesis
  proof (cases "match_or_empty ''for'' statement \<noteq> []
                \<and> length (map trim (split (match_or_empty ''for'' statement) CHR '';'')) \<ge> 3")
    case False
    with assms g show ?thesis
      by (auto simp: parseForStatement_def Let_def createNode_eq split: if_splits)
  next
    case True
    define parts where "parts = map trim (split (match_or_empty ''for'' statement) CHR '';'')"
    obtain n1 c1 where r1: "parseForStatement_part ''Init'' (parts ! 0) ?forNode (Suc c) = (n1, c1)"
      by (metis surj_pair)
    obtain n2 c2 where r2: "parseForStatement_part ''Condition'' (parts ! 1) n1 c1 = (n2, c2)"
      by (metis surj_pair)
    obtain n3 c3 where r3: "parseForStatement_part ''Update'' (parts ! 2) n2 c2 = (n3, c3)"
      by (metis surj_pair)
    from parseForStatement_part_good[OF r1 g] have g1: "good arity_ok c c1 n1"
      and t1: "node_type n1 = NT_for_statement" by simp_all
    from parseForStatement_part_good[OF r2 g1 t1] have g2: "good arity_ok c c2 n2"
      and t2: "node_type n2 = NT_for_statement" by simp_all
    from parseForStatement_part_good[OF r3 g2 t2] have g3: "good arity_ok c c3 n3" by simp
    from assms True r1 r2 r3 g3 show ?thesis
      by (simp add: parseForStatement_def Let_def createNode_eq parts_def)
  qed
qed

lemma parseFunctionDeclaration_for_good:
  assumes "parseFunctionDeclaration_for paramList paramListNode c = (n, c')"
    and "good arity_ok c0 c paramListNode" and "node_type paramListNode = NT_parameter_list"
  shows "good arity_ok c0 c' n \<and> node_type n = NT_parameter_list"
  using assms
proof (induct paramList arbitrary: paramListNode c)
  case Nil
  then show ?case by simp
next
  case (Cons param paramList)
  show ?case
  proof (cases "length (split_ws param) \<ge> 2")
    case False
    with Cons show ?thesis by (simp add: Let_def)
  next
    case True
    let ?p = "ASTNode (Suc c) NT_declaration (split_ws param ! 0 @ '' '' @ split_ws param ! 1)
                TT_identifier
                [ASTNode (Suc (Suc c)) NT_keyword (split_ws param ! 0) TT_keyword [],
                 ASTNode (Suc (Suc (Suc c))) NT_identifier (split_ws param ! 1) TT_identifier []]"
    have "good arity_ok c (Suc (Suc (Suc c))) ?p"
      by (auto simp: good_def arity_ok_def)
    with Cons.prems(2) have g: "good arity_ok c0 (Suc (Suc (Suc c))) (push_child paramListNode ?p)"
      by (rule good_plain_push) (simp_all add: Cons.prems(3))
    from Cons.prems(1) True
    have "parseFunctionDeclaration_for paramList (push_child paramListNode ?p) (Suc (Suc (Suc c)))
          = (n, c')"
      by (simp add: Let_def createNode_eq push_child_eq)
    from Cons.hyps[OF this g] Cons.prems(3) show ?thesis by simp
  qed
qed

lemma parseFunctionDeclaration_tail_good:
  assumes g: "good arity_ok c c2 fn1" and t: "node_type fn1 = NT_function_declaration"
    and r: "(case createNode NT_identifier functionName TT_identifier [] c2 of
              (nameNode, c3) \<Rightarrow>
                let functionNode2 = push_child fn1 nameNode in
                if trim paramsPart \<noteq> [] then
                  (case createNode NT_parameter_list ''Parameters'' TT_keyword [] c3 of
                     (paramListNode, c4) \<Rightarrow>
                   case parseFunctionDeclaration_for (map trim (split paramsPart CHR '','')) paramListNode c4 of
                     (paramListNode1, c5) \<Rightarrow>
                       if length (children paramListNode1) > 0
                       then (push_child functionNode2 paramListNode1, c5)
                       else (functionNode2, c5))
                else (functionNode2, c3)) = (n, c')"
  shows "good arity_ok c c' n"
proof -
  let ?fn2 = "push_child fn1 (ASTNode (Suc c2) NT_identifier functionName TT_identifier [])"
  have "good arity_ok c2 (Suc c2) (ASTNode (Suc c2) NT_identifier functionName TT_identifier [])"
    by (simp add: good_plain_leaf)
  with g have g2: "good arity_ok c (Suc c2) ?fn2"
    by (rule good_plain_push) (simp_all add: t)
  show ?thesis
  proof (cases "trim paramsPart \<noteq> []")
    case False
    with r g2 show ?thesis by (auto simp add: createNode_eq Let_def)
  next
    case True
    let ?pl = "ASTNode (Suc (Suc c2)) NT_parameter_list ''Parameters'' TT_keyword []"
    obtain pl1 c5 where l:
      "parseFunctionDeclaration_for (map trim (split paramsPart CHR '','')) ?pl (Suc (Suc c2)) = (pl1, c5)"
      by (metis surj_pair)
    have "good arity_ok (Suc c2) (Suc (Suc c2)) ?pl" by (simp add: good_plain_leaf)
    from parseFunctionDeclaration_for_good[OF l this]
    have g3: "good arity_ok (Suc c2) c5 pl1" by simp
    show ?thesis
    proof (cases "length (children pl1) > 0")
      case True
      from g2 g3 have "good arity_ok c c5 (push_child ?fn2 pl1)"
        by (rule good_plain_push) (simp_all add: t)
      with r \<open>trim paramsPart \<noteq> []\<close> l True show ?thesis by (auto simp add: createNode_eq Let_def)
    next
      case False
      from g2 g3 have "good arity_ok c c5 ?fn2"
        by (auto intro: good_widen dest: good_le)
      with r \<open>trim paramsPart \<noteq> []\<close> l False show ?thesis by (auto simp add: createNode_eq Let_def)
    qed
  qed
qed

lemma parseFunctionDeclaration_good:
  assumes "parseFunctionDeclaration statement language c = (n, c')"
  shows "good arity_ok c c' n"
proof -
  define functionName where
    "functionName = last (split_ws (trim (hd (split statement CHR ''(''))))"
  define returnType where
    "returnType = (if length (split_ws (trim (hd (split statement CHR ''('')))) > 1
                   then hd (split_ws (trim (hd (split statement CHR ''(''))))
                   else ''void'')"
  let ?fn = "ASTNode (Suc c) NT_function_declaration (''Function: '' @ functionName) TT_keyword []"
  have g0: "good arity_ok c (Suc c) ?fn" by (simp add: good_plain_leaf)
  show ?thesis
  proof (cases "returnType \<noteq> ''void''")
    case True
    have "good arity_ok (Suc c) (Suc (Suc c)) (ASTNode (Suc (Suc c)) NT_keyword returnType TT_keyword [])"
      by (simp add: good_plain_leaf)
    with g0 have g1: "good arity_ok c (Suc (Suc c))
        (push_child ?fn (ASTNode (Suc (Suc c)) NT_keyword returnType TT_keyword []))"
      by (rule good_plain_push) simp_all
    show ?thesis
      by (rule parseFunctionDeclaration_tail_good[OF g1])
         (use assms True in \<open>simp_all add: parseFunctionDeclaration_def Let_def createNode_eq
              functionName_def returnType_def\<close>)
  next
    case False
    show ?thesis
      by (rule parseFunctionDeclaration_tail_good[OF g0])
         (use assms False in \<open>simp_all add: parseFunctionDeclaration_def Let_def createNode_eq
              functionName_def returnType_def\<close>)
  qed
qed

lemma parseStatement_good:
  assumes "parseStatement statement language c = (n, c')"
  shows "good arity_ok c c' n"
proof -
  consider (a) "parseVariableDeclaration statement language c = (n, c')"
    | (b) "parseFunctionDeclaration statement language c = (n, c')"
    | (c) "parseIfStatement statement c = (n, c')"
    | (d) "parseWhileStatement statement c = (n, c')"
    | (e) "parseForStatement statement c = (n, c')"
    | (f) "parseReturnStatement statement c = (n, c')"
    | (g) "parseAssignment statement c = (n, c')"
    | (h) "parseExpressionStatement statement c = (n, c')"
    using assms unfolding parseStatement_def by (simp split: if_splits)
  then show ?thesis
    by cases
      (erule parseVariableDeclaration_good parseFunctionDeclaration_good parseIfStatement_good
             parseWhileStatement_good parseForStatement_good parseReturnStatement_good
             parseAssignment_good parseExpressionStatement_good)+
qed

subsection \<open>The tree assembler\<close>

lemma goods_Nil: "lo \<le> hi \<Longrightarrow> goods A lo hi []"
  by (simp add: goods_def)

lemma goods_le: "goods A lo hi ns \<Longrightarrow> lo \<le> hi"
  by (simp add: goods_def)

lemma distinct_insert_range:
  fixes X Y N :: "nat list"
  assumes "distinct (X @ Y)" and "distinct N"
    and "\<forall>i \<in> set (X @ Y). i \<le> mid" and "\<forall>i \<in> set N. mid < i"
  shows "distinct (X @ N @ Y)"
proof -
  from assms(3,4) have "set X \<inter> set N = {}" and "set N \<inter> set Y = {}"
    by (auto simp: disjoint_iff) (metis UnCI not_less)+
  with assms(1,2) show ?thesis by auto
qed

lemma goods_insert:
  assumes "goods A lo mid (xs @ ys)" and "good A mid hi n"
  shows "goods A lo hi (xs @ n # ys)"
proof -
  let ?X = "concat (map ids xs)" and ?Y = "concat (map ids ys)"
  from assms have le: "lo \<le> mid" "mid \<le> hi" by (simp_all add: goods_def good_def)
  from assms(1) have d: "distinct (?X @ ?Y)" and r: "\<forall>i \<in> set (?X @ ?Y). lo < i \<and> i \<le> mid"
    and a: "\<forall>k \<in> set (xs @ ys). \<forall>m \<in> set (nodes k). A m"
    by (simp_all add: goods_def)
  from assms(2) have dn: "distinct (ids n)" and rn: "\<forall>i \<in> set (ids n). mid < i \<and> i \<le> hi"
    and an: "\<forall>m \<in> set (nodes n). A m"
    by (simp_all add: good_def)
  from r have r': "\<forall>i \<in> set (?X @ ?Y). i \<le> mid" by blast
  from rn have rn': "\<forall>i \<in> set (ids n). mid < i" by blast
  have 1: "distinct (?X @ ids n @ ?Y)" by (rule distinct_insert_range[OF d dn r' rn'])
  have 2: "\<forall>i \<in> set (?X @ ids n @ ?Y). lo < i \<and> i \<le> hi"
  proof
    fix i assume "i \<in> set (?X @ ids n @ ?Y)"
    then consider "i \<in> set (?X @ ?Y)" | "i \<in> set (ids n)" by auto
    then show "lo < i \<and> i \<le> hi"
    proof cases
      case 1
      with r have "lo < i \<and> i \<le> mid" by blast
      with le show ?thesis by linarith
    next
      case 2
      with rn have "mid < i \<and> i \<le> hi" by blast
      with le show ?thesis by linarith
    qed
  qed
  from a an have 3: "\<forall>k \<in> set (xs @ n # ys). \<forall>m \<in> set (nodes k). A m" by auto
  from le 1 2 3 show ?thesis by (simp add: goods_def)
qed

lemma parseCode_for_good:
  assumes "parseCode_for lines language D S F c = ((D', S', F'), c')"
    and "goods arity_ok lo c (F @ D @ S)"
  shows "goods arity_ok lo c' (F' @ D' @ S')"
  using assms
proof (induct lines arbitrary: D S F c)
  case Nil
  then show ?case by simp
next
  case (Cons line lines)
  show ?case
  proof (cases "trim line = [] \<or> startsWith (trim line) ''//'' \<or> startsWith (trim line) ''#''")
    case True
    with Cons.prems(1) have "parseCode_for lines language D S F c = ((D', S', F'), c')"
      by (simp add: Let_def)
    from Cons.hyps[OF this Cons.prems(2)] show ?thesis .
  next
    case False
    obtain parsed c1 where r: "parseStatement (trim line) language c = (parsed, c1)"
      by (metis surj_pair)
    note g = parseStatement_good[OF r]
    show ?thesis
    proof (cases "node_type parsed = NT_function_declaration")
      case True
      with Cons.prems(1) False r
      have e: "parseCode_for lines language D S (F @ [parsed]) c1 = ((D', S', F'), c')"
        by (simp add: Let_def)
      from goods_insert[of arity_ok lo c F "D @ S" c1 parsed] Cons.prems(2) g
      have "goods arity_ok lo c1 ((F @ [parsed]) @ D @ S)" by simp
      from Cons.hyps[OF e this] show ?thesis .
    next
      case nf: False
      show ?thesis
      proof (cases "node_type parsed = NT_variable_declaration")
        case True
        with Cons.prems(1) False r nf
        have e: "parseCode_for lines language (D @ [parsed]) S F c1 = ((D', S', F'), c')"
          by (simp add: Let_def)
        from goods_insert[of arity_ok lo c "F @ D" S c1 parsed] Cons.prems(2) g
        have "goods arity_ok lo c1 (F @ (D @ [parsed]) @ S)" by simp
        from Cons.hyps[OF e this] show ?thesis .
      next
        case nd: False
        with Cons.prems(1) False r nf
        have e: "parseCode_for lines language D (S @ [parsed]) F c1 = ((D', S', F'), c')"
          by (simp add: Let_def)
        from goods_insert[of arity_ok lo c "F @ D @ S" "[]" c1 parsed] Cons.prems(2) g
        have "goods arity_ok lo c1 (F @ D @ S @ [parsed])" by simp
        from Cons.hyps[OF e this] show ?thesis .
      qed
    qed
  qed
qed

lemma root_ids:
  fixes Fi Di Si :: "nat list"
  assumes "distinct (Fi @ Di @ Si)" and "\<forall>i \<in> set (Fi @ Di @ Si). Suc 0 < i \<and> i \<le> c2"
    and "Suc 0 \<le> c2"
  shows "distinct (Suc 0 # Fi @ (Suc c2 # Di) @ (Suc (Suc c2) # Si))"
    and "\<forall>i \<in> set (Suc 0 # Fi @ (Suc c2 # Di) @ (Suc (Suc c2) # Si)). 0 < i \<and> i \<le> Suc (Suc c2)"
    and "distinct (Suc 0 # Fi @ (Suc c2 # Di))"
    and "\<forall>i \<in> set (Suc 0 # Fi @ (Suc c2 # Di)). 0 < i \<and> i \<le> Suc c2"
    and "distinct (Suc 0 # Fi)"
    and "\<forall>i \<in> set (Suc 0 # Fi). 0 < i \<and> (i \<le> c2 \<or> i = Suc 0)"
proof -
  have b: "Suc 0 < x \<and> x \<le> c2" if "x \<in> set Fi \<union> set Di \<union> set Si" for x
    using assms(2) that by auto
  have n1: "Suc 0 \<notin> set Fi \<union> set Di \<union> set Si" using b[of "Suc 0"] by auto
  have n2: "Suc c2 \<notin> set Fi \<union> set Di \<union> set Si" using b[of "Suc c2"] by auto
  have n3: "Suc (Suc c2) \<notin> set Fi \<union> set Di \<union> set Si" using b[of "Suc (Suc c2)"] by auto
  from assms(1,3) n1 n2 n3
  show "distinct (Suc 0 # Fi @ (Suc c2 # Di) @ (Suc (Suc c2) # Si))" by auto
  from assms(1,3) n1 n2 show "distinct (Suc 0 # Fi @ (Suc c2 # Di))" by auto
  from assms(1) n1 show "distinct (Suc 0 # Fi)" by auto
  show "\<forall>i \<in> set (Suc 0 # Fi @ (Suc c2 # Di) @ (Suc (Suc c2) # Si)). 0 < i \<and> i \<le> Suc (Suc c2)"
  proof
    fix i assume "i \<in> set (Suc 0 # Fi @ (Suc c2 # Di) @ (Suc (Suc c2) # Si))"
    then consider "i = Suc 0" | "i = Suc c2" | "i = Suc (Suc c2)" | "i \<in> set Fi \<union> set Di \<union> set Si"
      by auto
    then show "0 < i \<and> i \<le> Suc (Suc c2)"
    proof cases
      case 4
      from b[OF 4] show ?thesis by simp
    qed simp_all
  qed
  show "\<forall>i \<in> set (Suc 0 # Fi @ (Suc c2 # Di)). 0 < i \<and> i \<le> Suc c2"
  proof
    fix i assume "i \<in> set (Suc 0 # Fi @ (Suc c2 # Di))"
    then consider "i = Suc 0" | "i = Suc c2" | "i \<in> set Fi \<union> set Di \<union> set Si"
      by auto
    then show "0 < i \<and> i \<le> Suc c2"
    proof cases
      case 3
      from b[OF 3] show ?thesis by simp
    qed simp_all
  qed
  show "\<forall>i \<in> set (Suc 0 # Fi). 0 < i \<and> (i \<le> c2 \<or> i = Suc 0)"
  proof
    fix i assume "i \<in> set (Suc 0 # Fi)"
    then consider "i = Suc 0" | "i \<in> set Fi \<union> set Di \<union> set Si" by auto
    then show "0 < i \<and> (i \<le> c2 \<or> i = Suc 0)"
    proof cases
      case 2
      from b[OF 2] show ?thesis by simp
    qed simp_all
  qed
qed

lemma nodes_group:
  assumes "\<forall>k \<in> set ns. \<forall>m \<in> set (nodes k). arity_ok m"
    and "ty \<noteq> NT_binary_op" and "ty \<noteq> NT_unary_op"
  shows "\<forall>m \<in> set (nodes (ASTNode i ty v tt ns)). arity_ok m"
  using assms by (auto simp: arity_ok_def)

lemma good_root:
  assumes g: "goods arity_ok (Suc 0) c2 (F @ D @ S)"
    and ty: "tyD \<noteq> NT_binary_op" "tyD \<noteq> NT_unary_op" "tyS \<noteq> NT_binary_op" "tyS \<noteq> NT_unary_op"
      "ty \<noteq> NT_binary_op" "ty \<noteq> NT_unary_op"
  shows "good arity_ok 0 (Suc (Suc c2))
           (ASTNode (Suc 0) ty v tt
              (F @ [ASTNode (Suc c2) tyD vD ttD D] @ [ASTNode (Suc (Suc c2)) tyS vS ttS S]))"
    and "good arity_ok 0 (Suc c2) (ASTNode (Suc 0) ty v tt (F @ [ASTNode (Suc c2) tyD vD ttD D]))"
    and "good arity_ok 0 c2 (ASTNode (Suc 0) ty v tt F)"
proof -
  let ?F = "concat (map ids F)" and ?D = "concat (map ids D)" and ?S = "concat (map ids S)"
  from g have le: "Suc 0 \<le> c2" and d: "distinct (?F @ ?D @ ?S)"
    and r: "\<forall>i \<in> set (?F @ ?D @ ?S). Suc 0 < i \<and> i \<le> c2"
    and a: "\<forall>k \<in> set (F @ D @ S). \<forall>m \<in> set (nodes k). arity_ok m"
    by (simp_all add: goods_def)
  note i = root_ids[OF d r le]
  from a have aF: "\<forall>k \<in> set F. \<forall>m \<in> set (nodes k). arity_ok m"
    and aD: "\<forall>k \<in> set D. \<forall>m \<in> set (nodes k). arity_ok m"
    and aS: "\<forall>k \<in> set S. \<forall>m \<in> set (nodes k). arity_ok m" by auto
  note nD = nodes_group[OF aD ty(1,2), of "Suc c2" vD ttD]
  note nS = nodes_group[OF aS ty(3,4), of "Suc (Suc c2)" vS ttS]
  from aF nD nS
  have "\<forall>k \<in> set (F @ [ASTNode (Suc c2) tyD vD ttD D] @ [ASTNode (Suc (Suc c2)) tyS vS ttS S]).
          \<forall>m \<in> set (nodes k). arity_ok m" by auto
  from nodes_group[OF this ty(5,6), of "Suc 0" v tt] i(1,2)
  show "good arity_ok 0 (Suc (Suc c2))
           (ASTNode (Suc 0) ty v tt
              (F @ [ASTNode (Suc c2) tyD vD ttD D] @ [ASTNode (Suc (Suc c2)) tyS vS ttS S]))"
    by (simp add: good_def)
  from aF nD
  have "\<forall>k \<in> set (F @ [ASTNode (Suc c2) tyD vD ttD D]). \<forall>m \<in> set (nodes k). arity_ok m" by auto
  from nodes_group[OF this ty(5,6), of "Suc 0" v tt] i(3,4)
  show "good arity_ok 0 (Suc c2) (ASTNode (Suc 0) ty v tt (F @ [ASTNode (Suc c2) tyD vD ttD D]))"
    by (simp add: good_def)
  from i(6) le have "\<forall>i \<in> set (Suc 0 # ?F). 0 < i \<and> i \<le> c2" by auto
  with nodes_group[OF aF ty(5,6), of "Suc 0" v tt] i(5)
  show "good arity_ok 0 c2 (ASTNode (Suc 0) ty v tt F)"
    by (simp add: good_def)
qed

lemma foldl_push_child_eq:
  "foldl push_child (ASTNode i ty v tt ch) xs = ASTNode i ty v tt (ch @ xs)"
  by (induct xs arbitrary: ch) (simp_all add: push_child_eq)

lemma parseCode_lines_good:
  assumes "language \<noteq> ''expression''" and "parseCode fuel k input language = Some (t, c')"
  shows "good arity_ok 0 c' t"
proof -
  let ?lines = "filter (\<lambda>line. trim line \<noteq> []) (split input (CHR 0x0A))"
  obtain D S F c2 where l: "parseCode_for ?lines language [] [] [] (Suc 0) = ((D, S, F), c2)"
    by (metis prod_cases3 surj_pair)
  have "goods arity_ok (Suc 0) (Suc 0) ([] @ [] @ [])" by (simp add: goods_def)
  from parseCode_for_good[OF l this] have g: "goods arity_ok (Suc 0) c2 (F @ D @ S)" .
  then have g': "goods arity_ok (Suc 0) c2 (F @ S @ [])" if "D = []" using that by simp
  from assms l have t: "(t, c') =
     (if D \<noteq> [] then
        (if S \<noteq> [] then
           (ASTNode (Suc 0) NT_program (toUpperCase language @ '' Program'') TT_keyword
              (F @ [ASTNode (Suc c2) NT_declarations ''Declarations'' TT_keyword D]
                 @ [ASTNode (Suc (Suc c2)) NT_statements ''Statements'' TT_keyword S]),
            Suc (Suc c2))
         else
           (ASTNode (Suc 0) NT_program (toUpperCase language @ '' Program'') TT_keyword
              (F @ [ASTNode (Suc c2) NT_declarations ''Declarations'' TT_keyword D]), Suc c2))
      else
        (if S \<noteq> [] then
           (ASTNode (Suc 0) NT_program (toUpperCase language @ '' Program'') TT_keyword
              (F @ [ASTNode (Suc c2) NT_statements ''Statements'' TT_keyword S]), Suc c2)
         else
           (ASTNode (Suc 0) NT_program (toUpperCase language @ '' Program'') TT_keyword F, c2)))"
    by (auto simp: parseCode_def Let_def createNode_eq push_child_eq foldl_push_child_eq)
  show ?thesis
  proof (cases "D = []")
    case True
    show ?thesis
    proof (cases "S = []")
      case True
      with \<open>D = []\<close> t
        good_root(3)[OF g, where tyD = NT_declarations and tyS = NT_statements and ty = NT_program,
                     simplified]
      show ?thesis by simp
    next
      case False
      with \<open>D = []\<close> t
        good_root(2)[OF g'[OF \<open>D = []\<close>], where tyD = NT_statements and tyS = NT_statements
                     and ty = NT_program, simplified]
      show ?thesis by simp
    qed
  next
    case False
    show ?thesis
    proof (cases "S = []")
      case True
      with \<open>D \<noteq> []\<close> t
        good_root(2)[OF g, where tyD = NT_declarations and tyS = NT_statements and ty = NT_program,
                     simplified]
      show ?thesis by simp
    next
      case False
      with \<open>D \<noteq> []\<close> t
        good_root(1)[OF g, where tyD = NT_declarations and tyS = NT_statements and ty = NT_program,
                     simplified]
      show ?thesis by simp
    qed
  qed
qed

subsection \<open>The parser of the expression dialect\<close>

lemma optgood_simps [simp]:
  "optgood A lo hi None = (lo \<le> hi)"
  "optgood A lo hi (Some n) = good A lo hi n"
  by (simp_all add: optgood_def)

lemma optgood_le: "optgood A lo hi r \<Longrightarrow> lo \<le> hi"
  by (cases r) (simp_all add: good_def)

lemma optgood_widen: "optgood A lo hi r \<Longrightarrow> hi \<le> hi' \<Longrightarrow> optgood A lo hi' r"
  by (cases r) (auto intro: good_widen)

lemma goods_widen: "goods A lo hi ns \<Longrightarrow> hi \<le> hi' \<Longrightarrow> goods A lo hi' ns"
  unfolding goods_def by (meson le_trans)

lemma good_after:
  assumes "goods A lo hi ch" and "A (ASTNode (Suc hi) ty v tt ch)"
  shows "good A lo (Suc hi) (ASTNode (Suc hi) ty v tt ch)"
proof -
  from assms(1) have le: "lo \<le> hi" and d: "distinct (concat (map ids ch))"
    and r: "\<forall>i \<in> set (concat (map ids ch)). lo < i \<and> i \<le> hi"
    and a: "\<forall>n \<in> set ch. \<forall>m \<in> set (nodes n). A m"
    by (simp_all add: goods_def)
  have "Suc hi \<notin> set (concat (map ids ch))"
  proof
    assume "Suc hi \<in> set (concat (map ids ch))"
    with r have "Suc hi \<le> hi" by blast
    then show False by simp
  qed
  with d have 1: "distinct (ids (ASTNode (Suc hi) ty v tt ch))" by simp
  have 2: "\<forall>i \<in> set (ids (ASTNode (Suc hi) ty v tt ch)). lo < i \<and> i \<le> Suc hi"
  proof
    fix i assume "i \<in> set (ids (ASTNode (Suc hi) ty v tt ch))"
    then consider "i = Suc hi" | "i \<in> set (concat (map ids ch))" by auto
    then show "lo < i \<and> i \<le> Suc hi"
    proof cases
      case 1
      with le show ?thesis by simp
    next
      case 2
      with r have "lo < i \<and> i \<le> hi" by blast
      then show ?thesis by simp
    qed
  qed
  from a assms(2) have 3: "\<forall>m \<in> set (nodes (ASTNode (Suc hi) ty v tt ch)). A m" by auto
  from le 1 2 3 show ?thesis by (simp add: good_def)
qed

lemma goods_snoc:
  assumes "goods A lo mid xs" and "good A mid hi n"
  shows "goods A lo hi (xs @ [n])"
  using goods_insert[of A lo mid xs "[]" hi n] assms by simp

lemma good_weak_binary:
  assumes "optgood arity_weak c0 c left" and "good arity_weak c c1 r"
  shows "good arity_weak c0 (Suc c1)
           (ASTNode (Suc c1) NT_binary_op v tt (case left of Some l \<Rightarrow> [l, r] | None \<Rightarrow> [r]))"
proof (cases left)
  case None
  from assms(2) have "good arity_weak c (Suc c1) (ASTNode (Suc c1) NT_binary_op v tt [r])"
    by (rule good_unary) (simp add: arity_weak_def)
  with assms(1) None show ?thesis by (auto intro: good_widen)
next
  case (Some l)
  with assms(1) have "good arity_weak c0 c l" by simp
  from this assms(2) have "good arity_weak c0 (Suc c1) (ASTNode (Suc c1) NT_binary_op v tt [l, r])"
    by (rule good_binary) (simp add: arity_weak_def)
  with Some show ?thesis by simp
qed

lemma good_weak_leaf:
  "ty \<noteq> NT_binary_op \<Longrightarrow> ty \<noteq> NT_unary_op \<Longrightarrow>
   good arity_weak c (Suc c) (ASTNode (Suc c) ty v tt [])"
  by (rule good_leaf) (simp add: arity_weak_def)

lemma tokens_good:
  shows "\<And>tokens index c res i' c'.
           tokens_parseAddSub fuel tokens index c = Some (res, i', c')
           \<Longrightarrow> optgood arity_weak c c' res"
    and "\<And>tokens left index c res i' c' c0.
           tokens_parseAddSub_while fuel tokens left index c = Some (res, i', c')
           \<Longrightarrow> optgood arity_weak c0 c left \<Longrightarrow> optgood arity_weak c0 c' res"
    and "\<And>tokens index c res i' c'.
           tokens_parseMulDiv fuel tokens index c = Some (res, i', c')
           \<Longrightarrow> optgood arity_weak c c' res"
    and "\<And>tokens left index c res i' c' c0.
           tokens_parseMulDiv_while fuel tokens left index c = Some (res, i', c')
           \<Longrightarrow> optgood arity_weak c0 c left \<Longrightarrow> optgood arity_weak c0 c' res"
    and "\<And>tokens index c res i' c'.
           tokens_parsePrimary fuel tokens index c = Some (res, i', c')
           \<Longrightarrow> optgood arity_weak c c' res"
    and "\<And>tokens args index c res i' c' c0.
           tokens_parsePrimary_while fuel tokens args index c = Some (res, i', c')
           \<Longrightarrow> goods arity_weak c0 c args \<Longrightarrow> goods arity_weak c0 c' res"
proof (induct fuel)
  case 0
  {
    case 1 then show ?case by simp
  next
    case 2 then show ?case by simp
  next
    case 3 then show ?case by simp
  next
    case 4 then show ?case by simp
  next
    case 5 then show ?case by simp
  next
    case 6 then show ?case by simp
  }
next
  case (Suc fuel)
  note IH = Suc.hyps
  {
    case (1 tokens index c res i' c')
    then obtain left i1 c1 where
      a: "tokens_parseMulDiv fuel tokens index c = Some (left, i1, c1)" and
      b: "tokens_parseAddSub_while fuel tokens left i1 c1 = Some (res, i', c')"
      by (auto split: option.splits)
    from IH(2)[OF b IH(3)[OF a]] show ?case .
  next
    case (2 tokens left index c res i' c' c0)
    show ?case
    proof (cases "peek tokens index = Some ''+'' \<or> peek tokens index = Some ''-''")
      case False
      with 2 show ?thesis by auto
    next
      case True
      with 2(1) obtain right i1 c1 where
        a: "tokens_parseMulDiv fuel tokens (consume tokens index) c = Some (right, i1, c1)"
        by (auto split: option.splits)
      note ga = IH(3)[OF a]
      show ?thesis
      proof (cases right)
        case None
        with 2(1) True a
        have b: "tokens_parseAddSub_while fuel tokens left i1 c1 = Some (res, i', c')" by simp
        from ga None have "c \<le> c1" by simp
        with 2(2) have "optgood arity_weak c0 c1 left" by (rule optgood_widen)
        from IH(2)[OF b this] show ?thesis .
      next
        case (Some r)
        let ?n = "ASTNode (Suc c1) NT_binary_op (tokens ! index) TT_operator
                    (case left of Some l \<Rightarrow> [l, r] | None \<Rightarrow> [r])"
        from 2(1) True a Some
        have b: "tokens_parseAddSub_while fuel tokens (Some ?n) i1 (Suc c1) = Some (res, i', c')"
          by (simp add: createNode_eq)
        from ga Some have "good arity_weak c c1 r" by simp
        with 2(2) have "good arity_weak c0 (Suc c1) ?n" by (rule good_weak_binary)
        then have "optgood arity_weak c0 (Suc c1) (Some ?n)" by simp
        from IH(2)[OF b this] show ?thesis .
      qed
    qed
  next
    case (3 tokens index c res i' c')
    then obtain left i1 c1 where
      a: "tokens_parsePrimary fuel tokens index c = Some (left, i1, c1)" and
      b: "tokens_parseMulDiv_while fuel tokens left i1 c1 = Some (res, i', c')"
      by (auto split: option.splits)
    from IH(4)[OF b IH(5)[OF a]] show ?case .
  next
    case (4 tokens left index c res i' c' c0)
    show ?case
    proof (cases "peek tokens index = Some ''*'' \<or> peek tokens index = Some ''/''")
      case False
      with 4 show ?thesis by auto
    next
      case True
      with 4(1) obtain right i1 c1 where
        a: "tokens_parsePrimary fuel tokens (consume tokens index) c = Some (right, i1, c1)"
        by (auto split: option.splits)
      note ga = IH(5)[OF a]
      show ?thesis
      proof (cases right)
        case None
        with 4(1) True a
        have b: "tokens_parseMulDiv_while fuel tokens left i1 c1 = Some (res, i', c')" by simp
        from ga None have "c \<le> c1" by simp
        with 4(2) have "optgood arity_weak c0 c1 left" by (rule optgood_widen)
        from IH(4)[OF b this] show ?thesis .
      next
        case (Some r)
        let ?n = "ASTNode (Suc c1) NT_binary_op (tokens ! index) TT_operator
                    (case left of Some l \<Rightarrow> [l, r] | None \<Rightarrow> [r])"
        from 4(1) True a Some
        have b: "tokens_parseMulDiv_while fuel tokens (Some ?n) i1 (Suc c1) = Some (res, i', c')"
          by (simp add: createNode_eq)
        from ga Some have "good arity_weak c c1 r" by simp
        with 4(2) have "good arity_weak c0 (Suc c1) ?n" by (rule good_weak_binary)
        then have "optgood arity_weak c0 (Suc c1) (Some ?n)" by simp
        from IH(4)[OF b this] show ?thesis .
      qed
    qed
  next
    case (5 tokens index c res i' c')
    show ?case
    proof (cases "truthy (peek tokens index) \<and> tokens ! index = ''(''")
      case True
      with 5 obtain expr i1 where "tokens_parseAddSub fuel tokens (consume tokens index) c = Some (expr, i1, c')"
        and "res = expr"
        by (auto split: option.splits)
      with IH(1) show ?thesis by blast
    next
      case np: False
      show ?thesis
      proof (cases "truthy (peek tokens index) \<and> \<not> isNumber (tokens ! index)
                      \<and> isIdentifier (tokens ! index) \<and> peek tokens (consume tokens index) = Some ''(''")
        case True
        with 5 np obtain args i1 c1 where
          a: "tokens_parsePrimary_while fuel tokens [] (consume tokens (consume tokens index)) c
                = Some (args, i1, c1)"
          and r: "res = Some (ASTNode (Suc c1) NT_call_expression (tokens ! index) TT_identifier args)"
                 "c' = Suc c1"
          by (auto simp: createNode_eq split: option.splits)
        have "goods arity_weak c c []" by (simp add: goods_def)
        from IH(6)[OF a this]
        have "good arity_weak c (Suc c1)
                (ASTNode (Suc c1) NT_call_expression (tokens ! index) TT_identifier args)"
          by (rule good_after) (simp add: arity_weak_def)
        with r show ?thesis by simp
      next
        case False
        with 5 np show ?thesis
          by (auto simp: createNode_eq good_weak_leaf split: if_splits)
      qed
    qed
  next
    case (6 tokens args index c res i' c' c0)
    show ?case
    proof (cases "truthy (peek tokens index) \<and> peek tokens index \<noteq> Some '')''")
      case False
      with 6 show ?thesis by auto
    next
      case True
      with 6(1) obtain arg i1 c1 where
        a: "tokens_parseAddSub fuel tokens index c = Some (arg, i1, c1)" and
        b: "tokens_parsePrimary_while fuel tokens
              (case arg of Some a \<Rightarrow> args @ [a] | None \<Rightarrow> args)
              (if peek tokens i1 = Some '','' then consume tokens i1 else i1) c1 = Some (res, i', c')"
        by (auto split: option.splits)
      note ga = IH(1)[OF a]
      have "goods arity_weak c0 c1 (case arg of Some a \<Rightarrow> args @ [a] | None \<Rightarrow> args)"
      proof (cases arg)
        case None
        with ga have "c \<le> c1" by simp
        with 6(2) None show ?thesis by (auto intro: goods_widen)
      next
        case (Some a)
        with ga have "good arity_weak c c1 a" by simp
        with 6(2) have "goods arity_weak c0 c1 (args @ [a])" by (rule goods_snoc)
        with Some show ?thesis by simp
      qed
      from IH(6)[OF b this] show ?thesis .
    qed
  }
qed

subsection \<open>The exported functions\<close>

lemma parseExpression_good:
  assumes "parseExpression fuel k input = Some (t, c')"
  shows "good arity_weak 0 c' t"
proof -
  from assms obtain res i c1 where
    a: "tokens_parseAddSub fuel (tokenizeExpression input) 0 0 = Some (res, i, c1)"
    by (auto simp: parseExpression_def parseExpressionTokens_def split: option.splits)
  note g = tokens_good(1)[OF a]
  show ?thesis
  proof (cases res)
    case (Some n)
    with assms a g show ?thesis
      by (simp add: parseExpression_def parseExpressionTokens_def)
  next
    case None
    have "good arity_weak c1 (Suc c1) (ASTNode (Suc c1) NT_expression input TT_constant [])"
      by (simp add: good_weak_leaf)
    then have "good arity_weak 0 (Suc c1) (ASTNode (Suc c1) NT_expression input TT_constant [])"
      by (rule good_widen) simp_all
    with assms a None show ?thesis
      by (auto simp add: parseExpression_def parseExpressionTokens_def createNode_eq)
  qed
qed

lemma parseCode_expression_good:
  assumes "parseCode fuel k input ''expression'' = Some (t, c')"
  shows "good arity_weak 0 c' t"
proof -
  from assms obtain e c1 where a: "parseExpression fuel 0 input = Some (e, c1)"
    by (auto simp: parseCode_def split: option.splits)
  from parseExpression_good[OF a] have g: "good arity_weak 0 c1 e" .
  then have "goods arity_weak 0 c1 [e]" by (simp add: goods_def good_def)
  then have "goods arity_weak 0 (Suc c1) [e]" by (rule goods_widen) simp
  then have "good arity_weak 0 (Suc (Suc c1)) (ASTNode (Suc (Suc c1)) NT_statements ''Expressions'' TT_keyword [e])"
    by (rule good_after) (simp add: arity_weak_def)
  then have "good arity_weak 0 (Suc (Suc c1))
      (ASTNode (Suc c1) NT_program ''Program'' TT_keyword
         [ASTNode (Suc (Suc c1)) NT_statements ''Expressions'' TT_keyword [e]])"
    using g by (auto simp: good_def arity_weak_def)
  with assms a show ?thesis
    by (auto simp add: parseCode_def createNode_eq push_child_eq)
qed





lemma good_arity: "good A lo hi t \<Longrightarrow> n \<in> set (nodes t) \<Longrightarrow> A n"
  by (simp add: good_def)

section \<open>Unique node ids\<close>



section \<open>Children of operator nodes\<close>

text \<open>
  Claim C9 says that in every tree a top-level entry point returns, a \<^verbatim>\<open>binary_op\<close> node
  has exactly 2 children and a \<^verbatim>\<open>unary_op\<close> node exactly 1. \<^verbatim>\<open>parseExpression\<close> on
  \<^verbatim>\<open>+3\<close> returns a \<^verbatim>\<open>binary_op\<close> node with the single child 3: \<^verbatim>\<open>parseAddSub\<close> builds
  the node with \<^verbatim>\<open>left ? [left, right] : [right]\<close>.
\<close>

theorem C9_counterexample:
  "parseExpression 4 0 ''+3'' =
     Some (ASTNode 2 NT_binary_op ''+'' TT_operator [ASTNode 1 NT_constant ''3'' TT_constant []], 2)
   \<and> node_type (ASTNode 2 NT_binary_op ''+'' TT_operator [ASTNode 1 NT_constant ''3'' TT_constant []])
       = NT_binary_op
   \<and> length (children (ASTNode 2 NT_binary_op ''+'' TT_operator
                          [ASTNode 1 NT_constant ''3'' TT_constant []])) = 1"
  by (intro conjI) (code_simp, simp_all)

text \<open>
  Claim C9 as amended. In a tree that \<^verbatim>\<open>parseCode\<close> returns for a dialect other than
  \<^verbatim>\<open>expression\<close>, every \<^verbatim>\<open>binary_op\<close> node has exactly 2 children and every \<^verbatim>\<open>unary_op\<close>
  node exactly 1. In a tree that \<^verbatim>\<open>parseExpression\<close>, or \<^verbatim>\<open>parseCode\<close> with the dialect
  \<^verbatim>\<open>expression\<close>, returns, every \<^verbatim>\<open>binary_op\<close> node has 1 or 2 children and there is no
  \<^verbatim>\<open>unary_op\<close> node.
\<close>

theorem C9_operator_arity:
  "(returns (\<lambda>fuel. parseCode fuel nodeIdCounter input language) (t, c') \<and> n \<in> set (nodes t)
      \<longrightarrow> (if language = ''expression'' then arity_weak n else arity_ok n))
   \<and> (returns (\<lambda>fuel. parseExpression fuel nodeIdCounter input) (t, c') \<and> n \<in> set (nodes t)
      \<longrightarrow> arity_weak n)"
proof (intro conjI impI)
  assume h: "returns (\<lambda>fuel. parseCode fuel nodeIdCounter input language) (t, c')
             \<and> n \<in> set (nodes t)"
  then obtain fuel where r: "parseCode fuel nodeIdCounter input language = Some (t, c')"
    by (auto simp: returns_def)
  show "if language = ''expression'' then arity_weak n else arity_ok n"
  proof (cases "language = ''expression''")
    case True
    with r have "good arity_weak 0 c' t" by (simp add: parseCode_expression_good)
    with h True show ?thesis by (simp add: good_arity)
  next
    case False
    from parseCode_lines_good[OF False r] h False show ?thesis by (simp add: good_arity)
  qed
next
  assume h: "returns (\<lambda>fuel. parseExpression fuel nodeIdCounter input) (t, c')
             \<and> n \<in> set (nodes t)"
  then obtain fuel where r: "parseExpression fuel nodeIdCounter input = Some (t, c')"
    by (auto simp: returns_def)
  from parseExpression_good[OF r] h show "arity_weak n" by (simp add: good_arity)
qed

theorem C9_operator_arity_witness:
  "returns (\<lambda>fuel. parseCode fuel 0 ''-b'' ''c'')
     (ASTNode 1 NT_program ''C Program'' TT_keyword
        [ASTNode 4 NT_statements ''Statements'' TT_keyword
           [ASTNode 3 NT_unary_op ''-'' TT_operator
              [ASTNode 2 NT_identifier ''b'' TT_identifier []]]], 4)
   \<and> ASTNode 3 NT_unary_op ''-'' TT_operator [ASTNode 2 NT_identifier ''b'' TT_identifier []]
       \<in> set (nodes (ASTNode 1 NT_program ''C Program'' TT_keyword
        [ASTNode 4 NT_statements ''Statements'' TT_keyword
           [ASTNode 3 NT_unary_op ''-'' TT_operator
              [ASTNode 2 NT_identifier ''b'' TT_identifier []]]]))
   \<and> arity_ok (ASTNode 3 NT_unary_op ''-'' TT_operator
                  [ASTNode 2 NT_identifier ''b'' TT_identifier []])
   \<and> returns (\<lambda>fuel. parseExpression fuel 0 ''+3'')
     (ASTNode 2 NT_binary_op ''+'' TT_operator [ASTNode 1 NT_constant ''3'' TT_constant []], 2)
   \<and> arity_weak (ASTNode 2 NT_binary_op ''+'' TT_operator
                    [ASTNode 1 NT_constant ''3'' TT_constant []])"
proof -
  let ?t = "ASTNode 1 NT_program ''C Program'' TT_keyword
        [ASTNode 4 NT_statements ''Statements'' TT_keyword
           [ASTNode 3 NT_unary_op ''-'' TT_operator
              [ASTNode 2 NT_identifier ''b'' TT_identifier []]]]"
  let ?u = "ASTNode 3 NT_unary_op ''-'' TT_operator [ASTNode 2 NT_identifier ''b'' TT_identifier []]"
  let ?e = "ASTNode 2 NT_binary_op ''+'' TT_operator [ASTNode 1 NT_constant ''3'' TT_constant []]"
  have a: "returns (\<lambda>fuel. parseCode fuel 0 ''-b'' ''c'') (?t, 4)"
    unfolding returns_def by (rule exI[of _ 0]) code_simp
  have m: "?u \<in> set (nodes ?t)" by simp
  have b: "returns (\<lambda>fuel. parseExpression fuel 0 ''+3'') (?e, 2)"
    unfolding returns_def by (rule exI[of _ 4]) code_simp
  have k: "?e \<in> set (nodes ?e)" by simp
  from C9_operator_arity[of 0 "''-b''" "''c''" ?t 4 ?u] a m
  have 1: "arity_ok ?u" by simp
  from C9_operator_arity[of 0 "''+3''" "''c''" ?e 2 ?e] b k
  have 2: "arity_weak ?e" by blast
  from a m b 1 2 show ?thesis by simp
qed

end
